theory Spec2Isabelle
  imports
    Main
    "HOL-Library.Multiset"
    "HOL-Library.Word"
    "HOL-Library.Char_ord"
    "HOL-Library.List_Lexorder"
begin

section \<open>The S3 destination of the backup operator\<close>

text \<open>
  The development embeds package \<^verbatim>\<open>s3\<close> of the backup operator: the constructor
  \<^verbatim>\<open>NewS3Destination\<close>, the upload \<^verbatim>\<open>Store\<close>, the retention enforcement
  \<^verbatim>\<open>EnsureRetention\<close> and the sort interface of \<^verbatim>\<open>sortableObjectSlice\<close>.

  The object store is not part of the program. Every operation of the AWS client that
  the code calls is a field of the record \<open>S3API\<close>: a function from the request and the
  state of the outside world \<open>'w\<close> to the response and the next state. Each embedded
  function returns, beside its Go result, the list of calls it issued, in order, and the
  world it left.
\<close>

subsection \<open>Data\<close>

text \<open>
  A Go pointer to a \<^verbatim>\<open>time.Time\<close> is an address; the store \<open>mem\<close> maps an address to
  the instant it holds (nanoseconds since the epoch). \<^verbatim>\<open>s3.Object\<close> holds its key and
  its last-modified time behind pointers; a listing of the object store fills both, so
  the model keeps the key by value and the time by address, and no nil case for them.
\<close>

type_synonym addr = nat
type_synonym instant = int
type_synonym mem = "addr \<Rightarrow> instant"
type_synonym int64 = "64 word"

datatype error =
  AwsError string string
| OtherError string

datatype 'a outcome = Returns 'a | Panics

record Object =
  Key :: string
  LastModified :: addr

record ListObjectsInput =
  list_Bucket :: string
  list_Prefix :: string

record ListObjectsOutput =
  Contents :: "Object list"

record DeleteObjectInput =
  del_Bucket :: string
  del_Key :: string

record CreateBucketInput =
  create_Bucket :: string

record UploadInput =
  up_Bucket :: string
  up_Key :: string
  up_Body :: "8 word list"
  up_SSECustomerAlgorithm :: "string option"
  up_SSECustomerKey :: "string option"

record UploadOutput =
  Location :: string
  UploadID :: string

record HeadObjectInput =
  head_Bucket :: string
  head_Key :: string
  head_SSECustomerAlgorithm :: "string option"
  head_SSECustomerKey :: "string option"

record HeadObjectOutput =
  ContentLength :: "int64 option"

datatype call =
  CallCreateBucket CreateBucketInput
| CallUpload UploadInput
| CallHeadObject HeadObjectInput
| CallListObjectsPages ListObjectsInput
| CallDeleteObject DeleteObjectInput

text \<open>
  The listing answers with the pages it delivers to the callback, the memory in which
  the pointers of those pages live, and the error it ends with, if any.
\<close>

record 'w S3API =
  api_CreateBucket :: "CreateBucketInput \<Rightarrow> 'w \<Rightarrow> error option \<times> 'w"
  api_Upload :: "UploadInput \<Rightarrow> 'w \<Rightarrow> (error + UploadOutput) \<times> 'w"
  api_HeadObject :: "HeadObjectInput \<Rightarrow> 'w \<Rightarrow> (error + HeadObjectOutput) \<times> 'w"
  api_ListObjectsPages ::
    "ListObjectsInput \<Rightarrow> 'w \<Rightarrow> (ListObjectsOutput list \<times> mem \<times> error option) \<times> 'w"
  api_DeleteObject :: "DeleteObjectInput \<Rightarrow> 'w \<Rightarrow> error option \<times> 'w"

record S3DestinationConf =
  conf_Endpoint :: string
  conf_AccessKey :: string
  conf_SecretKey :: string
  conf_EncryptionKey :: "string option"
  conf_EncryptionAlgorithm :: string
  conf_DisableSSL :: bool
  conf_InsecureSkipVerify :: bool
  conf_Bucket :: string
  conf_Prefix :: string
  conf_PartSize :: int64

record S3Destination =
  EncryptionKey :: "string option"
  EncryptionAlgorithm :: string
  PartSize :: int64
  Bucket :: string
  Prefix :: string

record backup_Object =
  ID :: string
  Data :: "8 word list"

subsection \<open>sortableObjectSlice\<close>

type_synonym sortableObjectSlice = "Object list"

definition Len :: "sortableObjectSlice \<Rightarrow> nat" where
  "Len s = length s"

text \<open>
  \<^verbatim>\<open>s[i].LastModified == s[j].LastModified\<close> compares two pointers, hence two
  addresses; \<^verbatim>\<open>After\<close> compares the instants they point to. The sort package calls
  \<^verbatim>\<open>Less\<close> and \<^verbatim>\<open>Swap\<close> with indices below \<^verbatim>\<open>Len\<close> only.
\<close>

definition Less :: "mem \<Rightarrow> sortableObjectSlice \<Rightarrow> nat \<Rightarrow> nat \<Rightarrow> bool" where
  "Less m s i j =
     (if LastModified (s ! i) = LastModified (s ! j) then Key (s ! i) < Key (s ! j)
      else m (LastModified (s ! i)) > m (LastModified (s ! j)))"

definition Swap :: "sortableObjectSlice \<Rightarrow> nat \<Rightarrow> nat \<Rightarrow> sortableObjectSlice" where
  "Swap s i j = s[i := s ! j, j := s ! i]"

subsection \<open>The sort package of the Go library\<close>

text \<open>
  \<^verbatim>\<open>sort.IsSorted\<close>: no element is \<^verbatim>\<open>Less\<close> than its predecessor.
\<close>

definition IsSorted :: "mem \<Rightarrow> sortableObjectSlice \<Rightarrow> bool" where
  "IsSorted m s = list_all (\<lambda>i. \<not> Less m s i (i - 1)) [1 ..< Len s]"

text \<open>
  \<^verbatim>\<open>sort.Sort\<close> rearranges the slice in place so that \<^verbatim>\<open>IsSorted\<close> holds; it is not
  stable, and which algorithm runs depends on the length of the slice and on the release
  of the library. \<open>Sort_post\<close> is what the library promises of a result \<open>s'\<close> for \<open>s\<close>.
\<close>

definition Sort_post :: "mem \<Rightarrow> sortableObjectSlice \<Rightarrow> sortableObjectSlice \<Rightarrow> bool" where
  "Sort_post m s s' = (mset s' = mset s \<and> IsSorted m s')"

text \<open>
  \<^verbatim>\<open>insertionSort(data, 0, n)\<close>, the routine \<^verbatim>\<open>sort.Sort\<close> runs on a short slice (of at
  most six elements in every release of the library, of at most twelve in the later
  ones): \<open>siftDown_ins\<close> is its inner loop, started at \<open>j\<close>. It is the sorting routine of
  the examples below.
\<close>

fun siftDown_ins :: "mem \<Rightarrow> sortableObjectSlice \<Rightarrow> nat \<Rightarrow> sortableObjectSlice" where
  "siftDown_ins m s 0 = s"
| "siftDown_ins m s (Suc j) =
     (if Less m s (Suc j) j then siftDown_ins m (Swap s (Suc j) j) j else s)"

definition insertionSort :: "mem \<Rightarrow> sortableObjectSlice \<Rightarrow> sortableObjectSlice" where
  "insertionSort m s = fold (\<lambda>i s. siftDown_ins m s i) [1 ..< Len s] s"

subsection \<open>EnsureRetention\<close>

text \<open>
  \<^verbatim>\<open>ListObjectsPages\<close> hands each page to the callback, with the flag of the last page,
  until the callback answers false or the pages end.
\<close>

fun eachPage ::
  "('a \<Rightarrow> ListObjectsOutput \<Rightarrow> bool \<Rightarrow> 'a \<times> bool) \<Rightarrow> ListObjectsOutput list \<Rightarrow> 'a \<Rightarrow> 'a" where
  "eachPage fn [] acc = acc"
| "eachPage fn (page # pages) acc =
     (case fn acc page (pages = []) of
        (acc', continue) \<Rightarrow> if continue then eachPage fn pages acc' else acc')"

text \<open>The callback of \<^verbatim>\<open>EnsureRetention\<close>: append the page, go on.\<close>

definition appendPage :: "Object list \<Rightarrow> ListObjectsOutput \<Rightarrow> bool \<Rightarrow> Object list \<times> bool" where
  "appendPage objects page lastPage = (objects @ Contents page, True)"

text \<open>The loop over \<^verbatim>\<open>obsolete\<close>: one \<^verbatim>\<open>DeleteObject\<close> each, return at the first error.\<close>

fun deleteLoop ::
  "'w S3API \<Rightarrow> S3Destination \<Rightarrow> Object list \<Rightarrow> 'w \<Rightarrow> error option \<times> call list \<times> 'w" where
  "deleteLoop api s [] w = (None, [], w)"
| "deleteLoop api s (obj # rest) w =
     (let input = \<lparr>del_Bucket = Bucket s, del_Key = Key obj\<rparr> in
      case api_DeleteObject api input w of
        (Some err, w') \<Rightarrow> (Some err, [CallDeleteObject input], w')
      | (None, w') \<Rightarrow>
          (case deleteLoop api s rest w' of
             (r, calls, w'') \<Rightarrow> (r, CallDeleteObject input # calls, w'')))"

definition deleteCall :: "S3Destination \<Rightarrow> Object \<Rightarrow> call" where
  "deleteCall s obj = CallDeleteObject \<lparr>del_Bucket = Bucket s, del_Key = Key obj\<rparr>"

text \<open>
  Two notions to state what a run of deletions does to the world, not part of the
  program: \<open>worldAfter\<close> is the world after one \<^verbatim>\<open>DeleteObject\<close> for each object in turn,
  and \<open>allSucceed\<close> says that each of these calls, made in the world the previous one
  left, returns no error.
\<close>

fun worldAfter :: "'w S3API \<Rightarrow> S3Destination \<Rightarrow> Object list \<Rightarrow> 'w \<Rightarrow> 'w" where
  "worldAfter api s [] w = w"
| "worldAfter api s (obj # rest) w =
     worldAfter api s rest
       (snd (api_DeleteObject api \<lparr>del_Bucket = Bucket s, del_Key = Key obj\<rparr> w))"

fun allSucceed :: "'w S3API \<Rightarrow> S3Destination \<Rightarrow> Object list \<Rightarrow> 'w \<Rightarrow> bool" where
  "allSucceed api s [] w = True"
| "allSucceed api s (obj # rest) w =
     (fst (api_DeleteObject api \<lparr>del_Bucket = Bucket s, del_Key = Key obj\<rparr> w) = None
      \<and> allSucceed api s rest
            (snd (api_DeleteObject api \<lparr>del_Bucket = Bucket s, del_Key = Key obj\<rparr> w)))"

text \<open>
  \<open>sortSort\<close> stands for \<^verbatim>\<open>sort.Sort\<close>, which sorts \<^verbatim>\<open>objects\<close> in place. The slice
  expression \<^verbatim>\<open>objects[max:]\<close> panics when \<open>max\<close> is negative or beyond the length; the
  guard before it excludes the second. \<open>max\<close> is a Go \<^verbatim>\<open>int\<close>; it is only compared, so an
  integer stands for it.
\<close>

definition EnsureRetention ::
  "(mem \<Rightarrow> sortableObjectSlice \<Rightarrow> sortableObjectSlice) \<Rightarrow> 'w S3API \<Rightarrow> S3Destination \<Rightarrow> int \<Rightarrow> 'w
     \<Rightarrow> error option outcome \<times> call list \<times> 'w" where
  "EnsureRetention sortSort api s max' w =
     (let input = \<lparr>list_Bucket = Bucket s, list_Prefix = Prefix s\<rparr> in
      case api_ListObjectsPages api input w of
        ((pages, m, err), w1) \<Rightarrow>
          (let objects = eachPage appendPage pages [] in
           case err of
             Some e \<Rightarrow> (Returns (Some e), [CallListObjectsPages input], w1)
           | None \<Rightarrow>
               if int (length objects) > max' then
                 (let objects = sortSort m objects in
                  if max' < 0 \<or> max' > int (length objects)
                  then (Panics, [CallListObjectsPages input], w1)
                  else
                    (let obsolete = drop (nat max') objects in
                     if length objects > 0 then
                       (case deleteLoop api s obsolete w1 of
                          (r, calls, w2) \<Rightarrow> (Returns r, CallListObjectsPages input # calls, w2))
                     else (Returns None, [CallListObjectsPages input], w1)))
               else (Returns None, [CallListObjectsPages input], w1)))"

subsection \<open>The path functions of the Go library\<close>

text \<open>
  \<^verbatim>\<open>filepath.Join\<close> and \<^verbatim>\<open>filepath.Clean\<close> as they run on Unix, where the separator
  is the slash and a path has no volume name. \<open>out\<close> is the part of the buffer written so
  far, so its length is the index \<^verbatim>\<open>out.w\<close>; \<open>dotdot\<close> is the index where a \<^verbatim>\<open>..\<close>
  element must stop backtracking.
\<close>

definition Separator :: char where
  "Separator = CHR ''/''"

fun strings_Join :: "string list \<Rightarrow> string \<Rightarrow> string" where
  "strings_Join [] sep = []"
| "strings_Join [e] sep = e"
| "strings_Join (e # es) sep = e @ sep @ strings_Join es sep"

text \<open>
  The backtracking of a \<^verbatim>\<open>..\<close> element, after \<^verbatim>\<open>out.w--\<close>: step back while the
  index is above \<open>dotdot\<close> and the byte there is not a separator.
\<close>

fun backtrack :: "string \<Rightarrow> nat \<Rightarrow> nat \<Rightarrow> nat" where
  "backtrack out dotdot 0 = 0"
| "backtrack out dotdot (Suc w) =
     (if Suc w > dotdot \<and> out ! Suc w \<noteq> Separator then backtrack out dotdot w else Suc w)"

text \<open>
  The main loop of \<^verbatim>\<open>Clean\<close> over the rest of the path. The third case reads the
  byte after a dot only where there is one, as the second case has excluded the end.
\<close>

function cleanLoop :: "bool \<Rightarrow> string \<Rightarrow> string \<Rightarrow> nat \<Rightarrow> string" where
  "cleanLoop rooted [] out dotdot = out"
| "cleanLoop rooted (c # cs) out dotdot =
     (if c = Separator then cleanLoop rooted cs out dotdot
      else if c = CHR ''.'' \<and> (cs = [] \<or> hd cs = Separator) then cleanLoop rooted cs out dotdot
      else if c = CHR ''.'' \<and> cs \<noteq> [] \<and> hd cs = CHR ''.''
                \<and> (tl cs = [] \<or> hd (tl cs) = Separator) then
        (if length out > dotdot then
           cleanLoop rooted (tl cs) (take (backtrack out dotdot (length out - 1)) out) dotdot
         else if \<not> rooted then
           (let out' = (if length out > 0 then out @ [Separator] else out) @ ''..''
            in cleanLoop rooted (tl cs) out' (length out'))
         else cleanLoop rooted (tl cs) out dotdot)
      else
        (let out' = (if rooted \<and> length out \<noteq> 1 \<or> \<not> rooted \<and> length out \<noteq> 0
                     then out @ [Separator] else out)
         in cleanLoop rooted (dropWhile (\<lambda>b. b \<noteq> Separator) (c # cs))
              (out' @ takeWhile (\<lambda>b. b \<noteq> Separator) (c # cs)) dotdot))"
  by pat_completeness auto
termination
  by (relation "measure (\<lambda>(rooted, path, out, dotdot). length path)")
     (auto simp: less_Suc_eq_le length_dropWhile_le)

definition Clean :: "string \<Rightarrow> string" where
  "Clean path =
     (if path = [] then ''.''
      else
        (let rooted = (hd path = Separator);
             out = cleanLoop rooted (if rooted then tl path else path)
                     (if rooted then [Separator] else []) (if rooted then 1 else 0)
         in if length out = 0 then ''.'' else out))"

fun filepath_Join :: "string list \<Rightarrow> string" where
  "filepath_Join [] = []"
| "filepath_Join (e # es) =
     (if e \<noteq> [] then Clean (strings_Join (e # es) [Separator]) else filepath_Join es)"

text \<open>
  An element of a path that \<^verbatim>\<open>Clean\<close> copies as it is: not empty, not \<^verbatim>\<open>.\<close> or
  \<^verbatim>\<open>..\<close>, and without a separator.
\<close>

definition plainElem :: "string \<Rightarrow> bool" where
  "plainElem e = (e \<noteq> [] \<and> e \<noteq> ''.'' \<and> e \<noteq> ''..'' \<and> Separator \<notin> set e)"

subsection \<open>NewS3Destination\<close>

text \<open>The two error codes of the AWS library that the constructor tolerates.\<close>

definition ErrCodeBucketAlreadyExists :: string where
  "ErrCodeBucketAlreadyExists = ''BucketAlreadyExists''"

definition ErrCodeBucketAlreadyOwnedByYou :: string where
  "ErrCodeBucketAlreadyOwnedByYou = ''BucketAlreadyOwnedByYou''"

text \<open>
  \<open>sessionErr\<close> is the error of \<^verbatim>\<open>session.NewSession\<close>, if any. An \<open>AwsError\<close> is an
  error value that implements \<^verbatim>\<open>awserr.Error\<close>, with its code and message; an
  \<open>OtherError\<close> is any other error value, for which the type assertion fails.
\<close>

definition NewS3Destination ::
  "error option \<Rightarrow> 'w S3API \<Rightarrow> S3DestinationConf \<Rightarrow> 'w \<Rightarrow> (error + S3Destination) \<times> call list \<times> 'w" where
  "NewS3Destination sessionErr api conf w =
     (case sessionErr of
        Some err \<Rightarrow> (Inl err, [], w)
      | None \<Rightarrow>
          (let input = \<lparr>create_Bucket = conf_Bucket conf\<rparr>;
               dest = \<lparr>EncryptionKey = conf_EncryptionKey conf,
                       EncryptionAlgorithm = conf_EncryptionAlgorithm conf,
                       PartSize = conf_PartSize conf,
                       Bucket = conf_Bucket conf,
                       Prefix = conf_Prefix conf\<rparr>
           in case api_CreateBucket api input w of
                (None, w1) \<Rightarrow> (Inr dest, [CallCreateBucket input], w1)
              | (Some err, w1) \<Rightarrow>
                  (case err of
                     AwsError code message \<Rightarrow>
                       if code \<noteq> ErrCodeBucketAlreadyExists \<and> code \<noteq> ErrCodeBucketAlreadyOwnedByYou
                       then (Inl err, [CallCreateBucket input], w1)
                       else (Inr dest, [CallCreateBucket input], w1)
                   | OtherError message \<Rightarrow> (Inl err, [CallCreateBucket input], w1))))"

subsection \<open>Store\<close>

text \<open>
  \<open>dflt\<close> is the constant \<^verbatim>\<open>DefaultEncryptionAlgorithm\<close> of the package. The upload
  result is only logged. \<^verbatim>\<open>*head.ContentLength\<close> panics on a nil pointer.
\<close>

definition Store ::
  "string \<Rightarrow> 'w S3API \<Rightarrow> S3Destination \<Rightarrow> backup_Object \<Rightarrow> 'w
     \<Rightarrow> (int64 \<times> error option) outcome \<times> call list \<times> 'w" where
  "Store dflt api s obj w =
     (let key = filepath_Join [Prefix s, ID obj];
          params = \<lparr>up_Bucket = Bucket s, up_Key = key, up_Body = Data obj,
                    up_SSECustomerAlgorithm = None, up_SSECustomerKey = None\<rparr>;
          params =
            (if EncryptionKey s \<noteq> None then
               params\<lparr>up_SSECustomerAlgorithm :=
                          (if EncryptionAlgorithm s = [] then Some dflt
                           else Some (EncryptionAlgorithm s)),
                        up_SSECustomerKey := EncryptionKey s\<rparr>
             else params)
      in case api_Upload api params w of
           (Inl err, w1) \<Rightarrow> (Returns (0, Some err), [CallUpload params], w1)
         | (Inr res, w1) \<Rightarrow>
             (let headObjectInput = \<lparr>head_Bucket = Bucket s, head_Key = key,
                                      head_SSECustomerAlgorithm = None,
                                      head_SSECustomerKey = None\<rparr>;
                  headObjectInput =
                    (if EncryptionKey s \<noteq> None then
                       headObjectInput\<lparr>head_SSECustomerAlgorithm :=
                                          (if EncryptionAlgorithm s = [] then Some dflt
                                           else Some (EncryptionAlgorithm s)),
                                        head_SSECustomerKey := EncryptionKey s\<rparr>
                     else headObjectInput)
              in case api_HeadObject api headObjectInput w1 of
                   (Inl err, w2) \<Rightarrow>
                     (Returns (0, Some err), [CallUpload params, CallHeadObject headObjectInput], w2)
                 | (Inr head, w2) \<Rightarrow>
                     (case ContentLength head of
                        None \<Rightarrow> (Panics, [CallUpload params, CallHeadObject headObjectInput], w2)
                      | Some n \<Rightarrow>
                          (Returns (n, None),
                           [CallUpload params, CallHeadObject headObjectInput], w2))))"

subsection \<open>The order of the sort, on objects\<close>

text \<open>
  Two notions for the proofs, not part of the program. \<open>less_obj m a b\<close> is \<^verbatim>\<open>Less\<close> on the
  objects themselves. \<open>insertLast m x ys\<close> is what the inner loop of \<^verbatim>\<open>insertionSort\<close> does
  to the front part of the slice, read from its end: the new element passes each element
  it is \<open>less_obj\<close> than, and stops before the first it is not.
\<close>

definition less_obj :: "mem \<Rightarrow> Object \<Rightarrow> Object \<Rightarrow> bool" where
  "less_obj m a b =
     (if LastModified a = LastModified b then Key a < Key b
      else m (LastModified a) > m (LastModified b))"

fun insertLast :: "mem \<Rightarrow> Object \<Rightarrow> Object list \<Rightarrow> Object list" where
  "insertLast m x [] = [x]"
| "insertLast m x (y # ys) = (if less_obj m x y then y # insertLast m x ys else x # y # ys)"

subsection \<open>An object store for the examples\<close>

text \<open>
  A small store to run the functions on: the pages a listing returns and the memory of
  their pointers, the error it gives to a bucket creation, and the bodies uploaded so
  far. \<open>store_api refused\<close> refuses to delete the keys in \<open>refused\<close>; any other deletion
  removes the key from every page. A size lookup answers with the length of the body
  uploaded last under the key.
\<close>

record store =
  listing :: "ListObjectsOutput list"
  clock :: mem
  createError :: "error option"
  uploaded :: "(string \<times> 8 word list) list"

definition store_api :: "string list \<Rightarrow> store S3API" where
  "store_api refused =
     \<lparr>api_CreateBucket = (\<lambda>inp w. (createError w, w)),
      api_Upload = (\<lambda>inp w.
        (Inr \<lparr>Location = up_Key inp, UploadID = []\<rparr>,
         w\<lparr>uploaded := (up_Key inp, up_Body inp) # uploaded w\<rparr>)),
      api_HeadObject = (\<lambda>inp w.
        (case map_of (uploaded w) (head_Key inp) of
           None \<Rightarrow> (Inl (AwsError ''NotFound'' ''Not Found''), w)
         | Some body \<Rightarrow> (Inr \<lparr>ContentLength = Some (of_nat (length body))\<rparr>, w))),
      api_ListObjectsPages = (\<lambda>inp w. ((listing w, clock w, None), w)),
      api_DeleteObject = (\<lambda>inp w.
        if del_Key inp \<in> set refused
        then (Some (AwsError ''AccessDenied'' ''Access Denied''), w)
        else (None,
          w\<lparr>listing :=
            map (\<lambda>page. \<lparr>Contents = filter (\<lambda>obj. Key obj \<noteq> del_Key inp) (Contents page)\<rparr>)
              (listing w)\<rparr>))\<rparr>"

definition example_destination :: S3Destination where
  "example_destination =
     \<lparr>EncryptionKey = Some ''0123456789abcdef0123456789abcdef'', EncryptionAlgorithm = [],
      PartSize = 5242880, Bucket = ''test'', Prefix = ''ns/plan''\<rparr>"

definition example_store :: store where
  "example_store =
     \<lparr>listing =
        [\<lparr>Contents = [\<lparr>Key = ''ns/plan/k3'', LastModified = 3\<rparr>,
                      \<lparr>Key = ''ns/plan/k1'', LastModified = 1\<rparr>]\<rparr>,
         \<lparr>Contents = [\<lparr>Key = ''ns/plan/k5'', LastModified = 5\<rparr>,
                      \<lparr>Key = ''ns/plan/k2'', LastModified = 2\<rparr>,
                      \<lparr>Key = ''ns/plan/k4'', LastModified = 4\<rparr>]\<rparr>],
      clock = (\<lambda>a. 1600000000 + 60 * int a),
      createError = None,
      uploaded = []\<rparr>"

text \<open>
  Two artifacts with the same last-modified time, each behind a pointer of its own, in
  the two orders a listing can return them.
\<close>

definition example_ties :: store where
  "example_ties =
     \<lparr>listing = [\<lparr>Contents = [\<lparr>Key = ''ns/plan/b'', LastModified = 0\<rparr>,
                                \<lparr>Key = ''ns/plan/a'', LastModified = 1\<rparr>]\<rparr>],
      clock = (\<lambda>a. 1600000000),
      createError = None,
      uploaded = []\<rparr>"

definition example_ties_permuted :: store where
  "example_ties_permuted =
     \<lparr>listing = [\<lparr>Contents = [\<lparr>Key = ''ns/plan/a'', LastModified = 1\<rparr>,
                                \<lparr>Key = ''ns/plan/b'', LastModified = 0\<rparr>]\<rparr>],
      clock = (\<lambda>a. 1600000000),
      createError = None,
      uploaded = []\<rparr>"

definition example_object :: backup_Object where
  "example_object = \<lparr>ID = ''dump.tgz'', Data = [80, 75, 3]\<rparr>"

definition example_unprefixed :: S3Destination where
  "example_unprefixed =
     \<lparr>EncryptionKey = None, EncryptionAlgorithm = [], PartSize = 5242880,
      Bucket = ''test'', Prefix = []\<rparr>"

definition example_conf :: S3DestinationConf where
  "example_conf =
     \<lparr>conf_Endpoint = ''localhost:8000'', conf_AccessKey = ''TESTACCESSKEY'',
      conf_SecretKey = ''TESTSECRETKEY'', conf_EncryptionKey = None,
      conf_EncryptionAlgorithm = [], conf_DisableSSL = True, conf_InsecureSkipVerify = False,
      conf_Bucket = ''test'', conf_Prefix = ''ns/plan'', conf_PartSize = 5242880\<rparr>"

section \<open>The loops of the retention enforcement\<close>

lemma eachPage_appendPage:
  "eachPage appendPage pages acc = acc @ concat (map Contents pages)"
  by (induction pages arbitrary: acc) (simp_all add: appendPage_def)

lemma deleteLoop_allSucceed:
  "allSucceed api s objs w \<Longrightarrow>
     deleteLoop api s objs w = (None, map (deleteCall s) objs, worldAfter api s objs w)"
proof (induction objs arbitrary: w)
  case Nil
  show ?case by simp
next
  case (Cons obj rest)
  let ?input = "\<lparr>del_Bucket = Bucket s, del_Key = Key obj\<rparr>"
  obtain e w1 where del: "api_DeleteObject api ?input w = (e, w1)"
    by (cases "api_DeleteObject api ?input w") auto
  with Cons.prems have e: "e = None" and rest: "allSucceed api s rest w1" by simp_all
  from Cons.IH [OF rest] del e show ?case by (simp add: deleteCall_def)
qed



lemma IsSorted_distinct_times:
  assumes sorted: "IsSorted m s"
    and dist: "distinct (map (\<lambda>obj. m (LastModified obj)) s)"
  shows "sorted_wrt (\<lambda>a b. m (LastModified b) < m (LastModified a)) s"
proof -
  have tr: "transp (\<lambda>a b. m (LastModified b) < m (LastModified a))"
    by (auto simp: transp_def)
  have step: "m (LastModified (s ! Suc i)) < m (LastModified (s ! i))" if i: "Suc i < length s" for i
  proof -
    from sorted have "\<forall>j\<in>{1..<length s}. \<not> Less m s j (j - 1)"
      by (simp add: IsSorted_def Len_def list_all_iff)
    moreover from i have "Suc i \<in> {1..<length s}" by simp
    ultimately have "\<not> Less m s (Suc i) (Suc i - 1)" by blast
    then have nl: "\<not> Less m s (Suc i) i" by simp
    from dist i have ne: "m (LastModified (s ! Suc i)) \<noteq> m (LastModified (s ! i))"
      using nth_eq_iff_index_eq [of "map (\<lambda>obj. m (LastModified obj)) s" "Suc i" i] by simp
    then have "LastModified (s ! Suc i) \<noteq> LastModified (s ! i)" by auto
    with nl have "\<not> m (LastModified (s ! i)) < m (LastModified (s ! Suc i))"
      by (simp add: Less_def)
    with ne show ?thesis by simp
  qed
  show ?thesis
    unfolding sorted_wrt_iff_nth_Suc_transp [OF tr] using step by blast
qed

lemma EnsureRetention_deletes:
  assumes listing: "api_ListObjectsPages api \<lparr>list_Bucket = Bucket s, list_Prefix = Prefix s\<rparr> w
                      = ((pages, m, None), w1)"
    and lower: "0 \<le> max'" and upper: "max' < int (length (concat (map Contents pages)))"
    and len: "length (sortSort m (concat (map Contents pages))) = length (concat (map Contents pages))"
  shows "EnsureRetention sortSort api s max' w =
           (case deleteLoop api s (drop (nat max') (sortSort m (concat (map Contents pages)))) w1 of
              (r, calls, w2) \<Rightarrow>
                (Returns r,
                 CallListObjectsPages \<lparr>list_Bucket = Bucket s, list_Prefix = Prefix s\<rparr> # calls,
                 w2))"
proof -
  let ?objects = "concat (map Contents pages)"
  from lower upper have pos: "0 < length (sortSort m ?objects)"
    unfolding len by linarith
  have guard: "\<not> (max' < 0 \<or> max' > int (length (sortSort m ?objects)))"
    using lower upper unfolding len by linarith
  show ?thesis
    unfolding EnsureRetention_def Let_def listing eachPage_appendPage
    using upper pos guard by (simp del: length_greater_0_conv)
qed

lemma EnsureRetention_listing_error:
  assumes "api_ListObjectsPages api \<lparr>list_Bucket = Bucket s, list_Prefix = Prefix s\<rparr> w
             = ((pages, m, Some e), w1)"
  shows "EnsureRetention sortSort api s max' w =
           (Returns (Some e), [CallListObjectsPages \<lparr>list_Bucket = Bucket s, list_Prefix = Prefix s\<rparr>], w1)"
  unfolding EnsureRetention_def Let_def assms by simp

lemma EnsureRetention_no_excess:
  assumes "api_ListObjectsPages api \<lparr>list_Bucket = Bucket s, list_Prefix = Prefix s\<rparr> w
             = ((pages, m, None), w1)"
    and "int (length (concat (map Contents pages))) \<le> max'"
  shows "EnsureRetention sortSort api s max' w =
           (Returns None, [CallListObjectsPages \<lparr>list_Bucket = Bucket s, list_Prefix = Prefix s\<rparr>], w1)"
  unfolding EnsureRetention_def Let_def assms(1) eachPage_appendPage
  using assms(2) by simp

lemma EnsureRetention_negative:
  assumes "api_ListObjectsPages api \<lparr>list_Bucket = Bucket s, list_Prefix = Prefix s\<rparr> w
             = ((pages, m, None), w1)"
    and "max' < 0"
  shows "EnsureRetention sortSort api s max' w =
           (Panics, [CallListObjectsPages \<lparr>list_Bucket = Bucket s, list_Prefix = Prefix s\<rparr>], w1)"
proof -
  have "max' < int (length (concat (map Contents pages)))"
    using assms(2) by linarith
  then show ?thesis
    unfolding EnsureRetention_def Let_def assms(1) eachPage_appendPage
    using assms(2) by simp
qed

section \<open>Insertion sort meets the promise of the sort package\<close>

text \<open>
  The inner loop and the whole of \<^verbatim>\<open>insertionSort\<close>, which work by index and swap, are
  expressed through \<open>insertLast\<close>. On a listing in which every object has a pointer of its
  own, as the listings of the object store are, the result is a permutation that
  \<^verbatim>\<open>sort.IsSorted\<close> accepts; and when moreover all instants are equal, the slice comes
  back in the order of the listing.
\<close>

lemma length_insertLast: "length (insertLast m x ys) = Suc (length ys)"
  by (induction ys) simp_all

lemma mset_insertLast: "mset (insertLast m x ys) = add_mset x (mset ys)"
  by (induction ys) simp_all

lemma set_insertLast: "set (insertLast m x ys) = insert x (set ys)"
  by (induction ys) auto

lemma set_foldl_insertLast:
  "set (foldl (\<lambda>acc x. insertLast m x acc) acc s) = set acc \<union> set s"
  by (induction s arbitrary: acc) (simp_all add: set_insertLast)

lemma Less_less_obj: "Less m s i j = less_obj m (s ! i) (s ! j)"
  by (simp add: Less_def less_obj_def)

lemma siftDown_ins_append:
  "length front = j \<Longrightarrow>
     siftDown_ins m (front @ x # rest) j = rev (insertLast m x (rev front)) @ rest"
proof (induction j arbitrary: front rest)
  case 0
  then show ?case by simp
next
  case (Suc j)
  then obtain front' y where front: "front = front' @ [y]" and len: "length front' = j"
    by (cases front rule: rev_cases) auto
  have at: "(front' @ y # x # rest) ! Suc j = x" "(front' @ y # x # rest) ! j = y"
    using len by (simp_all add: nth_append)
  have swap: "Swap (front' @ y # x # rest) (Suc j) j = front' @ x # y # rest"
    using len by (simp add: Swap_def at list_update_append)
  show ?case
    using Suc.IH [OF len, of "y # rest"]
    by (simp add: front Less_less_obj at swap)
qed

lemma insertionSort_fold:
  "length front = k \<Longrightarrow>
     fold (\<lambda>i s. siftDown_ins m s i) [k ..< k + length rest] (front @ rest)
       = rev (foldl (\<lambda>acc x. insertLast m x acc) (rev front) rest)"
proof (induction rest arbitrary: front k)
  case Nil
  then show ?case by simp
next
  case (Cons x rest)
  have "[k ..< k + length (x # rest)] = k # [Suc k ..< Suc k + length rest]"
    using upt_conv_Cons [of k "k + Suc (length rest)"] by simp
  moreover have "siftDown_ins m (front @ x # rest) k = rev (insertLast m x (rev front)) @ rest"
    using Cons.prems by (rule siftDown_ins_append)
  moreover have "length (rev (insertLast m x (rev front))) = Suc k"
    using Cons.prems by (simp add: length_insertLast)
  ultimately show ?case
    using Cons.IH [of "rev (insertLast m x (rev front))" "Suc k"] by simp
qed


lemma insertionSort_foldl:
  "insertionSort m s = rev (foldl (\<lambda>acc x. insertLast m x acc) [] s)"
proof (cases s)
  case Nil
  then show ?thesis by (simp add: insertionSort_def Len_def)
next
  case (Cons x rest)
  have "fold (\<lambda>i s. siftDown_ins m s i) [1 ..< 1 + length rest] ([x] @ rest)
          = rev (foldl (\<lambda>acc x. insertLast m x acc) (rev [x]) rest)"
    by (rule insertionSort_fold) simp
  then show ?thesis by (simp add: insertionSort_def Len_def Cons)
qed

lemma mset_foldl_insertLast:
  "mset (foldl (\<lambda>acc x. insertLast m x acc) acc s) = mset acc + mset s"
  by (induction s arbitrary: acc) (simp_all add: mset_insertLast)

lemma mset_insertionSort: "mset (insertionSort m s) = mset s"
  by (simp add: insertionSort_foldl mset_foldl_insertLast)

lemma less_obj_instants:
  assumes "inj_on LastModified S" and "a \<in> S" and "b \<in> S"
  shows "less_obj m a b \<longleftrightarrow> m (LastModified a) > m (LastModified b)"
proof (cases "a = b")
  case True
  then show ?thesis by (simp add: less_obj_def)
next
  case False
  with assms have "LastModified a \<noteq> LastModified b" by (auto dest: inj_onD)
  then show ?thesis by (simp add: less_obj_def)
qed

lemma sorted_insertLast:
  assumes inj: "inj_on LastModified S" and x: "x \<in> S" and ys: "set ys \<subseteq> S"
    and sorted: "sorted_wrt (\<lambda>a b. m (LastModified a) \<le> m (LastModified b)) ys"
  shows "sorted_wrt (\<lambda>a b. m (LastModified a) \<le> m (LastModified b)) (insertLast m x ys)"
  using ys sorted
proof (induction ys)
  case Nil
  then show ?case by simp
next
  case (Cons y ys)
  from Cons.prems have y: "y \<in> S" by simp
  show ?case
  proof (cases "less_obj m x y")
    case True
    with less_obj_instants [OF inj x y] have "m (LastModified y) < m (LastModified x)" by simp
    then show ?thesis using True Cons by (auto simp: set_insertLast)
  next
    case False
    with less_obj_instants [OF inj x y] have "m (LastModified x) \<le> m (LastModified y)" by simp
    with False Cons.prems show ?thesis by auto
  qed
qed

lemma sorted_foldl_insertLast:
  assumes inj: "inj_on LastModified S"
  shows "set acc \<subseteq> S \<Longrightarrow> set s \<subseteq> S \<Longrightarrow>
     sorted_wrt (\<lambda>a b. m (LastModified a) \<le> m (LastModified b)) acc \<Longrightarrow>
     sorted_wrt (\<lambda>a b. m (LastModified a) \<le> m (LastModified b))
       (foldl (\<lambda>acc x. insertLast m x acc) acc s)"
proof (induction s arbitrary: acc)
  case Nil
  then show ?case by simp
next
  case (Cons x s)
  from Cons.prems have "set (insertLast m x acc) \<subseteq> S" by (simp add: set_insertLast)
  moreover have "sorted_wrt (\<lambda>a b. m (LastModified a) \<le> m (LastModified b)) (insertLast m x acc)"
    using Cons.prems by (intro sorted_insertLast [OF inj]) simp_all
  ultimately show ?case using Cons.prems by (simp add: Cons.IH)
qed

lemma IsSorted_insertionSort:
  assumes "distinct (map LastModified s)"
  shows "IsSorted m (insertionSort m s)"
proof -
  let ?r = "foldl (\<lambda>acc x. insertLast m x acc) [] s"
  from assms have inj: "inj_on LastModified (set s)"
    by (simp add: distinct_map)
  have sorted: "sorted_wrt (\<lambda>a b. m (LastModified a) \<le> m (LastModified b)) ?r"
    by (rule sorted_foldl_insertLast [OF inj]) simp_all
  have set: "set ?r = set s"
    by (simp add: set_foldl_insertLast)
  have len: "length (rev ?r) = length ?r" by simp
  have "\<not> Less m (rev ?r) i (i - 1)" if i: "i \<in> set [1 ..< length (rev ?r)]" for i
  proof -
    from i have lt: "i < length ?r" and pos: "0 < i" by simp_all
    let ?a = "rev ?r ! i" and ?b = "rev ?r ! (i - 1)"
    have a: "?a = ?r ! (length ?r - Suc i)" and b: "?b = ?r ! (length ?r - i)"
      using lt pos by (simp_all add: rev_nth)
    have "length ?r - Suc i < length ?r - i" "length ?r - i < length ?r"
      using lt pos by simp_all
    with sorted have "m (LastModified ?a) \<le> m (LastModified ?b)"
      unfolding a b by (rule sorted_wrt_nth_less)
    moreover have "?r ! (length ?r - Suc i) \<in> set ?r" "?r ! (length ?r - i) \<in> set ?r"
      using lt pos by simp_all
    then have "?a \<in> set s" "?b \<in> set s"
      unfolding a b set by simp_all
    ultimately show ?thesis
      using less_obj_instants [OF inj, of ?a ?b m] by (simp add: Less_less_obj)
  qed
  then show ?thesis
    by (simp add: IsSorted_def Len_def insertionSort_foldl list_all_iff)
qed

lemma Sort_post_insertionSort:
  "distinct (map LastModified s) \<Longrightarrow> Sort_post m s (insertionSort m s)"
  by (simp add: Sort_post_def mset_insertionSort IsSorted_insertionSort)


lemma foldl_insertLast_ties:
  assumes "\<And>a b. a \<in> set s \<Longrightarrow> b \<in> set acc \<union> set s \<Longrightarrow> \<not> less_obj m a b"
  shows "foldl (\<lambda>acc x. insertLast m x acc) acc s = rev s @ acc"
  using assms
proof (induction s arbitrary: acc)
  case Nil
  then show ?case by simp
next
  case (Cons x s)
  have "insertLast m x acc = x # acc"
    using Cons.prems [of x] by (cases acc) simp_all
  moreover have "foldl (\<lambda>acc x. insertLast m x acc) (x # acc) s = rev s @ x # acc"
    using Cons.prems by (intro Cons.IH) auto
  ultimately show ?case by simp
qed

lemma insertionSort_ties:
  assumes dist: "distinct (map LastModified s)"
    and ties: "\<And>a b. a \<in> set s \<Longrightarrow> b \<in> set s \<Longrightarrow> m (LastModified a) = m (LastModified b)"
  shows "insertionSort m s = s"
proof -
  from dist have inj: "inj_on LastModified (set s)"
    by (simp add: distinct_map)
  have "\<not> less_obj m a b" if "a \<in> set s" "b \<in> set [] \<union> set s" for a b
    using that less_obj_instants [OF inj, of a b m] ties [of a b] by simp
  then have "foldl (\<lambda>acc x. insertLast m x acc) [] s = rev s @ []"
    by (rule foldl_insertLast_ties)
  then show ?thesis by (simp add: insertionSort_foldl)
qed

lemma EnsureRetention_ties_keep_listing_order:
  assumes listing: "api_ListObjectsPages api \<lparr>list_Bucket = Bucket s, list_Prefix = Prefix s\<rparr> w
                      = ((pages, m, None), w1)"
    and dist: "distinct (map LastModified (concat (map Contents pages)))"
    and ties: "\<And>a b. a \<in> set (concat (map Contents pages)) \<Longrightarrow>
                 b \<in> set (concat (map Contents pages)) \<Longrightarrow>
                 m (LastModified a) = m (LastModified b)"
    and lower: "0 \<le> max'" and upper: "max' < int (length (concat (map Contents pages)))"
  shows "EnsureRetention insertionSort api s max' w =
           (case deleteLoop api s (drop (nat max') (concat (map Contents pages))) w1 of
              (r, calls, w2) \<Rightarrow>
                (Returns r,
                 CallListObjectsPages \<lparr>list_Bucket = Bucket s, list_Prefix = Prefix s\<rparr> # calls,
                 w2))"
proof -
  have same: "insertionSort m (concat (map Contents pages)) = concat (map Contents pages)"
    using dist ties by (rule insertionSort_ties)
  from EnsureRetention_deletes [where sortSort = insertionSort, OF listing lower upper]
  show ?thesis by (simp only: same)
qed

section \<open>Properties of the retention enforcement\<close>

lemma store_api_listing:
  "api_ListObjectsPages (store_api refused) inp w = ((listing w, clock w, None), w)"
  by (simp add: store_api_def)

lemma example_listing:
  "api_ListObjectsPages (store_api refused)
     \<lparr>list_Bucket = Bucket example_destination, list_Prefix = Prefix example_destination\<rparr>
     example_store
   = ((listing example_store, clock example_store, None), example_store)"
  by (rule store_api_listing)

text \<open>
  Claim C1. The listing succeeds and returns artifacts with pairwise distinct
  last-modified times; \<open>0 \<le> max < \<close> the number of artifacts; \<^verbatim>\<open>sort.Sort\<close> does what
  the library promises. \<open>kept\<close> is the first \<open>max\<close> elements of the sorted slice and \<open>deleted\<close>
  the rest, and each deletion of \<open>deleted\<close>, in turn, succeeds. Then \<^verbatim>\<open>EnsureRetention(max)\<close>
  returns nil; its calls are the listing and one \<^verbatim>\<open>DeleteObject\<close> for each artifact of
  \<open>deleted\<close>, newest first; and the world it leaves is the world after these deletions.
  \<open>kept\<close> and \<open>deleted\<close> split the listing, \<open>kept\<close> has \<open>max\<close> artifacts, and every kept artifact
  is newer than every deleted one: the deleted artifacts are exactly those other than the
  \<open>max\<close> most recently modified.
\<close>

theorem EnsureRetention_keeps_newest:
  assumes listing: "api_ListObjectsPages api \<lparr>list_Bucket = Bucket s, list_Prefix = Prefix s\<rparr> w
                      = ((pages, m, None), w1)"
    and objects: "objects = concat (map Contents pages)"
    and dist: "distinct (map (\<lambda>obj. m (LastModified obj)) objects)"
    and lower: "0 \<le> max'" and upper: "max' < int (length objects)"
    and sort: "Sort_post m objects (sortSort m objects)"
    and kept: "kept = take (nat max') (sortSort m objects)"
    and deleted: "deleted = drop (nat max') (sortSort m objects)"
    and deletes: "allSucceed api s deleted w1"
  shows "EnsureRetention sortSort api s max' w
           = (Returns None,
              CallListObjectsPages \<lparr>list_Bucket = Bucket s, list_Prefix = Prefix s\<rparr>
                # map (deleteCall s) deleted,
              worldAfter api s deleted w1)
       \<and> mset kept + mset deleted = mset objects
       \<and> int (length kept) = max'
       \<and> (\<forall>k \<in> set kept. \<forall>d \<in> set deleted. m (LastModified d) < m (LastModified k))
       \<and> sorted_wrt (\<lambda>a b. m (LastModified b) < m (LastModified a)) deleted"
proof -
  let ?sorted = "sortSort m objects"
  from sort have ms: "mset ?sorted = mset objects" and srt: "IsSorted m ?sorted"
    by (simp_all add: Sort_post_def)
  from ms have len: "length ?sorted = length objects"
    by (metis size_mset)
  from ms have "mset (map (\<lambda>obj. m (LastModified obj)) ?sorted)
                  = mset (map (\<lambda>obj. m (LastModified obj)) objects)"
    by simp
  with dist have "distinct (map (\<lambda>obj. m (LastModified obj)) ?sorted)"
    by (metis mset_eq_imp_distinct_iff)
  with srt have "sorted_wrt (\<lambda>a b. m (LastModified b) < m (LastModified a)) ?sorted"
    by (rule IsSorted_distinct_times)
  then have whole: "sorted_wrt (\<lambda>a b. m (LastModified b) < m (LastModified a)) (kept @ deleted)"
    by (simp add: kept deleted)
  then have order: "\<forall>k \<in> set kept. \<forall>d \<in> set deleted. m (LastModified d) < m (LastModified k)"
    unfolding sorted_wrt_append by blast
  from whole have tail: "sorted_wrt (\<lambda>a b. m (LastModified b) < m (LastModified a)) deleted"
    unfolding sorted_wrt_append by blast
  have loop: "deleteLoop api s deleted w1 = (None, map (deleteCall s) deleted, worldAfter api s deleted w1)"
    using deletes by (rule deleteLoop_allSucceed)
  have run: "EnsureRetention sortSort api s max' w
               = (Returns None,
                  CallListObjectsPages \<lparr>list_Bucket = Bucket s, list_Prefix = Prefix s\<rparr>
                    # map (deleteCall s) deleted,
                  worldAfter api s deleted w1)"
    using EnsureRetention_deletes [where sortSort = sortSort, OF listing lower] upper len loop
    unfolding objects deleted by simp
  have part: "mset kept + mset deleted = mset objects"
    using ms unfolding kept deleted by (metis append_take_drop_id mset_append)
  have klen: "int (length kept) = max'"
    using lower upper len unfolding kept by simp
  from run part klen order tail show ?thesis by blast
qed

text \<open>
  The theorem on five artifacts \<open>k1\<close> to \<open>k5\<close> with increasing times, listed out of order on
  two pages, and \<open>max = 3\<close>: \<open>k2\<close> and \<open>k1\<close> are deleted, and the store is left with \<open>k3\<close>,
  \<open>k5\<close> and \<open>k4\<close>.
\<close>

theorem EnsureRetention_keeps_newest_witness:
  "EnsureRetention insertionSort (store_api []) example_destination 3 example_store
     = (Returns None,
        [CallListObjectsPages \<lparr>list_Bucket = ''test'', list_Prefix = ''ns/plan''\<rparr>,
         CallDeleteObject \<lparr>del_Bucket = ''test'', del_Key = ''ns/plan/k2''\<rparr>,
         CallDeleteObject \<lparr>del_Bucket = ''test'', del_Key = ''ns/plan/k1''\<rparr>],
        example_store\<lparr>listing :=
          [\<lparr>Contents = [\<lparr>Key = ''ns/plan/k3'', LastModified = 3\<rparr>]\<rparr>,
           \<lparr>Contents = [\<lparr>Key = ''ns/plan/k5'', LastModified = 5\<rparr>,
                        \<lparr>Key = ''ns/plan/k4'', LastModified = 4\<rparr>]\<rparr>]\<rparr>)
   \<and> list_all
       (\<lambda>k. list_all
          (\<lambda>d. clock example_store (LastModified d) < clock example_store (LastModified k))
          [\<lparr>Key = ''ns/plan/k2'', LastModified = 2\<rparr>,
           \<lparr>Key = ''ns/plan/k1'', LastModified = 1\<rparr>])
       [\<lparr>Key = ''ns/plan/k5'', LastModified = 5\<rparr>,
        \<lparr>Key = ''ns/plan/k4'', LastModified = 4\<rparr>,
        \<lparr>Key = ''ns/plan/k3'', LastModified = 3\<rparr>]"
proof -
  let ?objects = "concat (map Contents (listing example_store))"
  let ?kept = "[\<lparr>Key = ''ns/plan/k5'', LastModified = 5\<rparr>,
                \<lparr>Key = ''ns/plan/k4'', LastModified = 4\<rparr>,
                \<lparr>Key = ''ns/plan/k3'', LastModified = 3\<rparr>]"
  let ?deleted = "[\<lparr>Key = ''ns/plan/k2'', LastModified = 2\<rparr>,
                   \<lparr>Key = ''ns/plan/k1'', LastModified = 1\<rparr>]"
  have d: "distinct (map (\<lambda>obj. clock example_store (LastModified obj)) ?objects)"
    by code_simp
  have s: "Sort_post (clock example_store) ?objects (insertionSort (clock example_store) ?objects)"
    by code_simp
  have u: "(3::int) < int (length ?objects)"
    by (simp add: example_store_def)
  have k: "?kept = take (nat 3) (insertionSort (clock example_store) ?objects)"
    by code_simp
  have o: "?deleted = drop (nat 3) (insertionSort (clock example_store) ?objects)"
    by code_simp
  have a: "allSucceed (store_api []) example_destination ?deleted example_store"
    by (simp add: store_api_def)
  have w: "worldAfter (store_api []) example_destination ?deleted example_store
             = example_store\<lparr>listing :=
                 [\<lparr>Contents = [\<lparr>Key = ''ns/plan/k3'', LastModified = 3\<rparr>]\<rparr>,
                  \<lparr>Contents = [\<lparr>Key = ''ns/plan/k5'', LastModified = 5\<rparr>,
                               \<lparr>Key = ''ns/plan/k4'', LastModified = 4\<rparr>]\<rparr>]\<rparr>"
    by (simp add: store_api_def example_store_def)
  from EnsureRetention_keeps_newest
         [where sortSort = insertionSort and max' = 3, OF example_listing refl d _ u s k o a]
  show ?thesis
    unfolding w by (simp add: example_destination_def deleteCall_def list_all_iff)
qed



text \<open>
  Claim C5. The callback collects the contents of every page, in order, and what
  \<^verbatim>\<open>EnsureRetention\<close> does is fixed by that whole collection \<open>objects\<close>: after a listing
  error it returns the error and deletes nothing, whatever pages were delivered; when
  \<open>objects\<close> has at most \<open>max\<close> elements it deletes nothing; otherwise (and with \<open>max\<close> not
  negative) it runs the deletion loop on \<open>obsolete\<close>, the sorted \<open>objects\<close> without its first
  \<open>max\<close> elements. When these deletions all succeed, the calls are the listing and one
  \<^verbatim>\<open>DeleteObject\<close> for each element of \<open>obsolete\<close>, and the world is the one they leave.
\<close>

theorem EnsureRetention_merges_all_pages:
  assumes listing: "api_ListObjectsPages api \<lparr>list_Bucket = Bucket s, list_Prefix = Prefix s\<rparr> w
                      = ((pages, m, err), w1)"
    and objects: "objects = concat (map Contents pages)"
    and len: "length (sortSort m objects) = length objects"
    and obsolete: "obsolete = drop (nat max') (sortSort m objects)"
  shows "eachPage appendPage pages [] = objects
       \<and> EnsureRetention sortSort api s max' w
           = (case err of
                Some e \<Rightarrow>
                  (Returns (Some e),
                   [CallListObjectsPages \<lparr>list_Bucket = Bucket s, list_Prefix = Prefix s\<rparr>], w1)
              | None \<Rightarrow>
                  if int (length objects) \<le> max' then
                    (Returns None,
                     [CallListObjectsPages \<lparr>list_Bucket = Bucket s, list_Prefix = Prefix s\<rparr>], w1)
                  else if max' < 0 then
                    (Panics,
                     [CallListObjectsPages \<lparr>list_Bucket = Bucket s, list_Prefix = Prefix s\<rparr>], w1)
                  else
                    (case deleteLoop api s obsolete w1 of
                       (r, calls, w2) \<Rightarrow>
                         (Returns r,
                          CallListObjectsPages \<lparr>list_Bucket = Bucket s, list_Prefix = Prefix s\<rparr>
                            # calls, w2)))
       \<and> (err = None \<and> 0 \<le> max' \<and> max' < int (length objects) \<and> allSucceed api s obsolete w1
            \<longrightarrow> EnsureRetention sortSort api s max' w
                 = (Returns None,
                    CallListObjectsPages \<lparr>list_Bucket = Bucket s, list_Prefix = Prefix s\<rparr>
                      # map (deleteCall s) obsolete,
                    worldAfter api s obsolete w1))"
proof (intro conjI impI)
  show "eachPage appendPage pages [] = objects"
    by (simp add: eachPage_appendPage objects)
next
  show "EnsureRetention sortSort api s max' w
           = (case err of
                Some e \<Rightarrow>
                  (Returns (Some e),
                   [CallListObjectsPages \<lparr>list_Bucket = Bucket s, list_Prefix = Prefix s\<rparr>], w1)
              | None \<Rightarrow>
                  if int (length objects) \<le> max' then
                    (Returns None,
                     [CallListObjectsPages \<lparr>list_Bucket = Bucket s, list_Prefix = Prefix s\<rparr>], w1)
                  else if max' < 0 then
                    (Panics,
                     [CallListObjectsPages \<lparr>list_Bucket = Bucket s, list_Prefix = Prefix s\<rparr>], w1)
                  else
                    (case deleteLoop api s obsolete w1 of
                       (r, calls, w2) \<Rightarrow>
                         (Returns r,
                          CallListObjectsPages \<lparr>list_Bucket = Bucket s, list_Prefix = Prefix s\<rparr>
                            # calls, w2)))"
  proof (cases err)
    case (Some e)
    with listing show ?thesis by (simp add: EnsureRetention_listing_error)
  next
    case None
    note ok = listing [unfolded None]
    show ?thesis
    proof (cases "int (length objects) \<le> max'")
      case True
      with ok None show ?thesis
        unfolding objects by (simp add: EnsureRetention_no_excess)
    next
      case False
      show ?thesis
      proof (cases "max' < 0")
        case True
        with ok None False show ?thesis
          unfolding objects by (simp add: EnsureRetention_negative)
      next
        case nonneg: False
        from False have "max' < int (length (concat (map Contents pages)))"
          unfolding objects by simp
        moreover from nonneg have "0 \<le> max'" by simp
        ultimately have "EnsureRetention sortSort api s max' w =
           (case deleteLoop api s (drop (nat max') (sortSort m (concat (map Contents pages)))) w1 of
              (r, calls, w2) \<Rightarrow>
                (Returns r,
                 CallListObjectsPages \<lparr>list_Bucket = Bucket s, list_Prefix = Prefix s\<rparr> # calls,
                 w2))"
          using len unfolding objects
          by (intro EnsureRetention_deletes [where sortSort = sortSort, OF ok])
        with None False nonneg show ?thesis
          unfolding objects obsolete by simp
      qed
    qed
  qed
next
  assume a: "err = None \<and> 0 \<le> max' \<and> max' < int (length objects) \<and> allSucceed api s obsolete w1"
  then have ok: "api_ListObjectsPages api \<lparr>list_Bucket = Bucket s, list_Prefix = Prefix s\<rparr> w
                   = ((pages, m, None), w1)"
    using listing by simp
  from a have loop: "deleteLoop api s obsolete w1
                       = (None, map (deleteCall s) obsolete, worldAfter api s obsolete w1)"
    by (intro deleteLoop_allSucceed) simp
  from a have "0 \<le> max'" "max' < int (length (concat (map Contents pages)))"
    unfolding objects by simp_all
  from EnsureRetention_deletes [where sortSort = sortSort, OF ok this] len loop
  show "EnsureRetention sortSort api s max' w
          = (Returns None,
             CallListObjectsPages \<lparr>list_Bucket = Bucket s, list_Prefix = Prefix s\<rparr>
               # map (deleteCall s) obsolete,
             worldAfter api s obsolete w1)"
    unfolding objects obsolete by simp
qed

text \<open>
  On the example with \<open>max = 1\<close>: the first page alone holds \<open>k3\<close> and \<open>k1\<close>, but the
  deletions are those of \<open>k4\<close>, \<open>k3\<close>, \<open>k2\<close> and \<open>k1\<close>, decided on both pages, and \<open>k5\<close> is
  left. When the listing delivers the first page and then fails, nothing is deleted.
\<close>

theorem EnsureRetention_merges_all_pages_witness:
  "eachPage appendPage (listing example_store) []
     = [\<lparr>Key = ''ns/plan/k3'', LastModified = 3\<rparr>, \<lparr>Key = ''ns/plan/k1'', LastModified = 1\<rparr>,
        \<lparr>Key = ''ns/plan/k5'', LastModified = 5\<rparr>, \<lparr>Key = ''ns/plan/k2'', LastModified = 2\<rparr>,
        \<lparr>Key = ''ns/plan/k4'', LastModified = 4\<rparr>]
   \<and> EnsureRetention insertionSort (store_api []) example_destination 1 example_store
     = (Returns None,
        [CallListObjectsPages \<lparr>list_Bucket = ''test'', list_Prefix = ''ns/plan''\<rparr>,
         CallDeleteObject \<lparr>del_Bucket = ''test'', del_Key = ''ns/plan/k4''\<rparr>,
         CallDeleteObject \<lparr>del_Bucket = ''test'', del_Key = ''ns/plan/k3''\<rparr>,
         CallDeleteObject \<lparr>del_Bucket = ''test'', del_Key = ''ns/plan/k2''\<rparr>,
         CallDeleteObject \<lparr>del_Bucket = ''test'', del_Key = ''ns/plan/k1''\<rparr>],
        example_store\<lparr>listing :=
          [\<lparr>Contents = []\<rparr>, \<lparr>Contents = [\<lparr>Key = ''ns/plan/k5'', LastModified = 5\<rparr>]\<rparr>]\<rparr>)
   \<and> EnsureRetention insertionSort
       (store_api []\<lparr>api_ListObjectsPages :=
          (\<lambda>inp w. ((take 1 (listing w), clock w, Some (OtherError ''timeout'')), w))\<rparr>)
       example_destination 1 example_store
     = (Returns (Some (OtherError ''timeout'')),
        [CallListObjectsPages \<lparr>list_Bucket = ''test'', list_Prefix = ''ns/plan''\<rparr>],
        example_store)"
proof -
  let ?objects = "concat (map Contents (listing example_store))"
  let ?obsolete = "[\<lparr>Key = ''ns/plan/k4'', LastModified = 4\<rparr>,
                    \<lparr>Key = ''ns/plan/k3'', LastModified = 3\<rparr>,
                    \<lparr>Key = ''ns/plan/k2'', LastModified = 2\<rparr>,
                    \<lparr>Key = ''ns/plan/k1'', LastModified = 1\<rparr>]"
  let ?cut = "store_api []\<lparr>api_ListObjectsPages :=
          (\<lambda>inp w. ((take 1 (listing w), clock w, Some (OtherError ''timeout'')), w))\<rparr>"
  have all: "?objects
     = [\<lparr>Key = ''ns/plan/k3'', LastModified = 3\<rparr>, \<lparr>Key = ''ns/plan/k1'', LastModified = 1\<rparr>,
        \<lparr>Key = ''ns/plan/k5'', LastModified = 5\<rparr>, \<lparr>Key = ''ns/plan/k2'', LastModified = 2\<rparr>,
        \<lparr>Key = ''ns/plan/k4'', LastModified = 4\<rparr>]"
    by (simp add: example_store_def)
  have l: "length (insertionSort (clock example_store) ?objects) = length ?objects"
    by code_simp
  have o: "?obsolete = drop (nat 1) (insertionSort (clock example_store) ?objects)"
    by code_simp
  have a: "allSucceed (store_api []) example_destination ?obsolete example_store"
    by (simp add: store_api_def)
  have w: "worldAfter (store_api []) example_destination ?obsolete example_store
             = example_store\<lparr>listing :=
                 [\<lparr>Contents = []\<rparr>, \<lparr>Contents = [\<lparr>Key = ''ns/plan/k5'', LastModified = 5\<rparr>]\<rparr>]\<rparr>"
    by (simp add: store_api_def example_store_def)
  have u: "(1::int) < int (length ?objects)"
    by (simp add: example_store_def)
  have c: "api_ListObjectsPages ?cut
             \<lparr>list_Bucket = Bucket example_destination, list_Prefix = Prefix example_destination\<rparr>
             example_store
           = ((take 1 (listing example_store), clock example_store, Some (OtherError ''timeout'')),
              example_store)"
    by simp
  have lc: "length (insertionSort (clock example_store)
                      (concat (map Contents (take 1 (listing example_store)))))
              = length (concat (map Contents (take 1 (listing example_store))))"
    by code_simp
  note full = EnsureRetention_merges_all_pages
                [where sortSort = insertionSort and max' = 1 and api = "store_api []",
                 OF example_listing refl l o]
  note cut = EnsureRetention_merges_all_pages
               [where sortSort = insertionSort and max' = 1, OF c refl lc refl]
  from full have p1: "eachPage appendPage (listing example_store) [] = ?objects"
    by (rule conjunct1)
  have p2: "EnsureRetention insertionSort (store_api []) example_destination 1 example_store
              = (Returns None,
                 CallListObjectsPages
                   \<lparr>list_Bucket = Bucket example_destination,
                    list_Prefix = Prefix example_destination\<rparr>
                   # map (deleteCall example_destination) ?obsolete,
                 worldAfter (store_api []) example_destination ?obsolete example_store)"
    using a u by (intro full [THEN conjunct2, THEN conjunct2, rule_format]) simp
  from cut have p3: "EnsureRetention insertionSort ?cut example_destination 1 example_store
              = (Returns (Some (OtherError ''timeout'')),
                 [CallListObjectsPages
                    \<lparr>list_Bucket = Bucket example_destination,
                     list_Prefix = Prefix example_destination\<rparr>],
                 example_store)"
    by simp
  from p1 p2 p3 show ?thesis
    unfolding w all by (simp add: example_destination_def deleteCall_def)
qed

text \<open>
  Claim C6. On a non-empty listing, with a sort that keeps the elements and deletions that
  each succeed in turn, \<^verbatim>\<open>EnsureRetention(0)\<close> returns nil; its calls are the listing and
  one \<^verbatim>\<open>DeleteObject\<close> for every listed artifact (\<open>deleted\<close> is a permutation of the
  listing); and the world it leaves is the world after all these deletions.
\<close>

theorem EnsureRetention_zero_deletes_all:
  assumes listing: "api_ListObjectsPages api \<lparr>list_Bucket = Bucket s, list_Prefix = Prefix s\<rparr> w
                      = ((pages, m, None), w1)"
    and objects: "objects = concat (map Contents pages)"
    and nonempty: "objects \<noteq> []"
    and perm: "mset (sortSort m objects) = mset objects"
    and deleted: "deleted = sortSort m objects"
    and deletes: "allSucceed api s deleted w1"
  shows "EnsureRetention sortSort api s 0 w
           = (Returns None,
              CallListObjectsPages \<lparr>list_Bucket = Bucket s, list_Prefix = Prefix s\<rparr>
                # map (deleteCall s) deleted,
              worldAfter api s deleted w1)
       \<and> mset deleted = mset objects"
proof -
  from perm have len: "length (sortSort m objects) = length objects"
    by (metis size_mset)
  from nonempty have upper: "0 < int (length objects)" by simp
  have loop: "deleteLoop api s deleted w1 = (None, map (deleteCall s) deleted, worldAfter api s deleted w1)"
    using deletes by (rule deleteLoop_allSucceed)
  have "EnsureRetention sortSort api s 0 w
          = (Returns None,
             CallListObjectsPages \<lparr>list_Bucket = Bucket s, list_Prefix = Prefix s\<rparr>
               # map (deleteCall s) deleted,
             worldAfter api s deleted w1)"
    using EnsureRetention_deletes [where sortSort = sortSort and max' = 0, OF listing]
      upper len loop
    unfolding objects deleted by simp
  with perm deleted show ?thesis by simp
qed

text \<open>
  On the five artifacts of the example, every one is deleted and both pages of the store
  are left empty.
\<close>

theorem EnsureRetention_zero_deletes_all_witness:
  "EnsureRetention insertionSort (store_api []) example_destination 0 example_store
     = (Returns None,
        [CallListObjectsPages \<lparr>list_Bucket = ''test'', list_Prefix = ''ns/plan''\<rparr>,
         CallDeleteObject \<lparr>del_Bucket = ''test'', del_Key = ''ns/plan/k5''\<rparr>,
         CallDeleteObject \<lparr>del_Bucket = ''test'', del_Key = ''ns/plan/k4''\<rparr>,
         CallDeleteObject \<lparr>del_Bucket = ''test'', del_Key = ''ns/plan/k3''\<rparr>,
         CallDeleteObject \<lparr>del_Bucket = ''test'', del_Key = ''ns/plan/k2''\<rparr>,
         CallDeleteObject \<lparr>del_Bucket = ''test'', del_Key = ''ns/plan/k1''\<rparr>],
        example_store\<lparr>listing := [\<lparr>Contents = []\<rparr>, \<lparr>Contents = []\<rparr>]\<rparr>)"
proof -
  let ?objects = "concat (map Contents (listing example_store))"
  let ?deleted = "[\<lparr>Key = ''ns/plan/k5'', LastModified = 5\<rparr>,
                   \<lparr>Key = ''ns/plan/k4'', LastModified = 4\<rparr>,
                   \<lparr>Key = ''ns/plan/k3'', LastModified = 3\<rparr>,
                   \<lparr>Key = ''ns/plan/k2'', LastModified = 2\<rparr>,
                   \<lparr>Key = ''ns/plan/k1'', LastModified = 1\<rparr>]"
  have n: "?objects \<noteq> []"
    by (simp add: example_store_def)
  have p: "mset (insertionSort (clock example_store) ?objects) = mset ?objects"
    by code_simp
  have o: "?deleted = insertionSort (clock example_store) ?objects"
    by code_simp
  have a: "allSucceed (store_api []) example_destination ?deleted example_store"
    by (simp add: store_api_def)
  have w: "worldAfter (store_api []) example_destination ?deleted example_store
             = example_store\<lparr>listing := [\<lparr>Contents = []\<rparr>, \<lparr>Contents = []\<rparr>]\<rparr>"
    by (simp add: store_api_def example_store_def)
  from EnsureRetention_zero_deletes_all
         [where sortSort = insertionSort, OF example_listing refl n p o a]
  show ?thesis
    unfolding w by (simp add: example_destination_def deleteCall_def)
qed

text \<open>
  Claim C7. When the listing succeeds and the number of artifacts on all its pages is at
  most \<open>max\<close>, \<^verbatim>\<open>EnsureRetention(max)\<close> returns nil, the listing is the only call it
  issues, and the world is the one the listing left.
\<close>

theorem EnsureRetention_within_limit:
  assumes "api_ListObjectsPages api \<lparr>list_Bucket = Bucket s, list_Prefix = Prefix s\<rparr> w
             = ((pages, m, None), w1)"
    and "int (length (concat (map Contents pages))) \<le> max'"
  shows "EnsureRetention sortSort api s max' w =
           (Returns None, [CallListObjectsPages \<lparr>list_Bucket = Bucket s, list_Prefix = Prefix s\<rparr>], w1)"
  using assms by (rule EnsureRetention_no_excess)

theorem EnsureRetention_within_limit_witness:
  "int (length (concat (map Contents (listing example_store)))) \<le> 5
   \<and> EnsureRetention insertionSort (store_api []) example_destination 5 example_store
       = (Returns None,
          [CallListObjectsPages \<lparr>list_Bucket = ''test'', list_Prefix = ''ns/plan''\<rparr>],
          example_store)"
proof -
  have u: "int (length (concat (map Contents (listing example_store)))) \<le> 5"
    by (simp add: example_store_def)
  from EnsureRetention_within_limit [where sortSort = insertionSort, OF example_listing u] u
  show ?thesis by (simp add: example_destination_def)
qed

text \<open>
  Claim C10. After a successful listing (of any length, the empty one included), a
  negative \<open>max\<close> makes \<^verbatim>\<open>EnsureRetention\<close> panic at the slice expression
  \<^verbatim>\<open>objects[max:]\<close>, after the listing and before any deletion, and a \<open>max\<close> that is not
  negative never does.
\<close>

theorem EnsureRetention_panics_iff_negative:
  assumes listing: "api_ListObjectsPages api \<lparr>list_Bucket = Bucket s, list_Prefix = Prefix s\<rparr> w
                      = ((pages, m, None), w1)"
    and len: "length (sortSort m (concat (map Contents pages))) = length (concat (map Contents pages))"
  shows "(max' < 0 \<longrightarrow>
            EnsureRetention sortSort api s max' w
              = (Panics, [CallListObjectsPages \<lparr>list_Bucket = Bucket s, list_Prefix = Prefix s\<rparr>], w1))
       \<and> (0 \<le> max' \<longrightarrow> fst (EnsureRetention sortSort api s max' w) \<noteq> Panics)"
proof (intro conjI impI)
  assume "max' < 0"
  with listing show "EnsureRetention sortSort api s max' w
      = (Panics, [CallListObjectsPages \<lparr>list_Bucket = Bucket s, list_Prefix = Prefix s\<rparr>], w1)"
    by (rule EnsureRetention_negative)
next
  assume nonneg: "0 \<le> max'"
  show "fst (EnsureRetention sortSort api s max' w) \<noteq> Panics"
  proof (cases "int (length (concat (map Contents pages))) \<le> max'")
    case True
    with listing show ?thesis by (simp add: EnsureRetention_no_excess)
  next
    case False
    then have "max' < int (length (concat (map Contents pages)))" by simp
    from EnsureRetention_deletes [where sortSort = sortSort, OF listing nonneg this len] show ?thesis
      by (simp split: prod.splits)
  qed
qed

theorem EnsureRetention_panics_iff_negative_witness:
  "EnsureRetention insertionSort (store_api []) example_destination (- 1) example_store
     = (Panics,
        [CallListObjectsPages \<lparr>list_Bucket = ''test'', list_Prefix = ''ns/plan''\<rparr>],
        example_store)
   \<and> EnsureRetention insertionSort (store_api []) example_destination (- 1)
       (example_store\<lparr>listing := []\<rparr>)
     = (Panics,
        [CallListObjectsPages \<lparr>list_Bucket = ''test'', list_Prefix = ''ns/plan''\<rparr>],
        example_store\<lparr>listing := []\<rparr>)
   \<and> fst (EnsureRetention insertionSort (store_api []) example_destination 2 example_store) \<noteq> Panics"
proof -
  have l: "length (insertionSort (clock example_store) (concat (map Contents (listing example_store))))
             = length (concat (map Contents (listing example_store)))"
    by code_simp
  have e: "api_ListObjectsPages (store_api [])
             \<lparr>list_Bucket = Bucket example_destination, list_Prefix = Prefix example_destination\<rparr>
             (example_store\<lparr>listing := []\<rparr>)
           = (([], clock example_store, None), example_store\<lparr>listing := []\<rparr>)"
    by (simp add: store_api_def)
  have l0: "length (insertionSort (clock example_store) (concat (map Contents [])))
             = length (concat (map Contents []))"
    by (simp add: insertionSort_def Len_def)
  from EnsureRetention_panics_iff_negative
         [where sortSort = insertionSort and max' = "- 1", OF example_listing l]
       EnsureRetention_panics_iff_negative
         [where sortSort = insertionSort and max' = "- 1", OF e l0]
       EnsureRetention_panics_iff_negative
         [where sortSort = insertionSort and max' = 2, OF example_listing l]
  show ?thesis by (simp add: example_destination_def)
qed

text \<open>
  Claim C2 fails on the code. Two artifacts \<open>a\<close> and \<open>b\<close> have the same last-modified
  time, behind two pointers, and \<open>max = 1\<close>. \<^verbatim>\<open>Less\<close> compares the pointers, finds them
  different and goes on to \<^verbatim>\<open>After\<close>, which is false both ways; the keys are never
  compared. So listed as \<open>b, a\<close> the slice stays as it is and \<open>a\<close> is deleted, while listed
  as \<open>a, b\<close> it is \<open>b\<close> that is deleted: the retained set follows the listing order,
  although the key of \<open>a\<close> is the smaller one and should be retained in both. Both
  orders are sorted in the sense of \<^verbatim>\<open>sort.IsSorted\<close>, so no other sorting routine is
  bound to repair it.
\<close>

theorem EnsureRetention_ties_follow_listing_order:
  "''ns/plan/a'' < ''ns/plan/b''
   \<and> fst (snd (EnsureRetention insertionSort (store_api []) example_destination 1 example_ties))
     = [CallListObjectsPages \<lparr>list_Bucket = ''test'', list_Prefix = ''ns/plan''\<rparr>,
        CallDeleteObject \<lparr>del_Bucket = ''test'', del_Key = ''ns/plan/a''\<rparr>]
   \<and> fst (snd (EnsureRetention insertionSort (store_api []) example_destination 1
                 example_ties_permuted))
     = [CallListObjectsPages \<lparr>list_Bucket = ''test'', list_Prefix = ''ns/plan''\<rparr>,
        CallDeleteObject \<lparr>del_Bucket = ''test'', del_Key = ''ns/plan/b''\<rparr>]
   \<and> mset (concat (map Contents (listing example_ties_permuted)))
     = mset (concat (map Contents (listing example_ties)))
   \<and> Sort_post (clock example_ties) (concat (map Contents (listing example_ties)))
        [\<lparr>Key = ''ns/plan/b'', LastModified = 0\<rparr>, \<lparr>Key = ''ns/plan/a'', LastModified = 1\<rparr>]
   \<and> Sort_post (clock example_ties) (concat (map Contents (listing example_ties)))
        [\<lparr>Key = ''ns/plan/a'', LastModified = 1\<rparr>, \<lparr>Key = ''ns/plan/b'', LastModified = 0\<rparr>]"
  by code_simp

section \<open>Properties of the upload and of the constructor\<close>

lemma strings_Join_append:
  "xs \<noteq> [] \<Longrightarrow> ys \<noteq> [] \<Longrightarrow>
     strings_Join (xs @ ys) sep = strings_Join xs sep @ sep @ strings_Join ys sep"
proof (induction xs sep rule: strings_Join.induct)
  case (1 sep)
  then show ?case by simp
next
  case (2 e sep)
  then show ?case by (cases ys) simp_all
next
  case (3 e v va sep)
  then show ?case by simp
qed

lemma takeWhile_elem:
  assumes "Separator \<notin> set e" and "rest = [] \<or> hd rest = Separator"
  shows "takeWhile (\<lambda>b. b \<noteq> Separator) (e @ rest) = e"
    and "dropWhile (\<lambda>b. b \<noteq> Separator) (e @ rest) = rest"
proof -
  from assms(1) have all: "\<And>x. x \<in> set e \<Longrightarrow> x \<noteq> Separator" by auto
  from assms(2) have tw: "takeWhile (\<lambda>b. b \<noteq> Separator) rest = []"
    and dw: "dropWhile (\<lambda>b. b \<noteq> Separator) rest = rest"
    by (cases rest; simp)+
  show "takeWhile (\<lambda>b. b \<noteq> Separator) (e @ rest) = e"
    using all by (simp add: tw)
  show "dropWhile (\<lambda>b. b \<noteq> Separator) (e @ rest) = rest"
    using all by (simp add: dw)
qed

lemma cleanLoop_elem:
  assumes plain: "plainElem e" and rest: "rest = [] \<or> hd rest = Separator"
  shows "cleanLoop rooted (e @ rest) out dotdot =
           cleanLoop rooted rest
             ((if rooted \<and> length out \<noteq> 1 \<or> \<not> rooted \<and> length out \<noteq> 0
               then out @ [Separator] else out) @ e) dotdot"
proof -
  from plain obtain c cs where e: "e = c # cs" and c: "c \<noteq> Separator"
    and nosep: "Separator \<notin> set e"
    by (cases e) (auto simp: plainElem_def)
  have dot: "\<not> (c = CHR ''.'' \<and> (cs @ rest = [] \<or> hd (cs @ rest) = Separator))"
  proof
    assume a: "c = CHR ''.'' \<and> (cs @ rest = [] \<or> hd (cs @ rest) = Separator)"
    with plain e have "cs \<noteq> []" by (auto simp: plainElem_def)
    with a nosep e show False by (cases cs) auto
  qed
  have dotdot: "\<not> (c = CHR ''.'' \<and> cs @ rest \<noteq> [] \<and> hd (cs @ rest) = CHR ''.''
                  \<and> (tl (cs @ rest) = [] \<or> hd (tl (cs @ rest)) = Separator))"
  proof
    assume a: "c = CHR ''.'' \<and> cs @ rest \<noteq> [] \<and> hd (cs @ rest) = CHR ''.''
                  \<and> (tl (cs @ rest) = [] \<or> hd (tl (cs @ rest)) = Separator)"
    show False
    proof (cases cs)
      case Nil
      with a rest show ?thesis by (auto simp: Separator_def)
    next
      case (Cons d ds)
      with a have d: "d = CHR ''.''" by simp
      with plain e a Cons have "ds \<noteq> []" by (auto simp: plainElem_def)
      with a Cons nosep e show ?thesis by (cases ds) auto
    qed
  qed
  from takeWhile_elem [OF nosep rest]
  have tw: "takeWhile (\<lambda>b. b \<noteq> Separator) (c # cs @ rest) = c # cs"
    and dw: "dropWhile (\<lambda>b. b \<noteq> Separator) (c # cs @ rest) = rest"
    by (simp_all add: e)
  have "cleanLoop rooted (c # cs @ rest) out dotdot =
          cleanLoop rooted (dropWhile (\<lambda>b. b \<noteq> Separator) (c # cs @ rest))
            ((if rooted \<and> length out \<noteq> 1 \<or> \<not> rooted \<and> length out \<noteq> 0
              then out @ [Separator] else out) @ takeWhile (\<lambda>b. b \<noteq> Separator) (c # cs @ rest)) dotdot"
    by (subst cleanLoop.simps) (simp only: c dot dotdot if_False Let_def)
  then show ?thesis unfolding tw dw by (simp add: e)
qed

lemma cleanLoop_elems:
  assumes "elems \<noteq> []" and "\<forall>e \<in> set elems. plainElem e"
  shows "cleanLoop rooted (strings_Join elems [Separator]) out dotdot =
           (if rooted \<and> length out \<noteq> 1 \<or> \<not> rooted \<and> length out \<noteq> 0
            then out @ [Separator] else out) @ strings_Join elems [Separator]"
  using assms
proof (induction elems "[Separator]" arbitrary: out rule: strings_Join.induct)
  case 1
  then show ?case by simp
next
  case (2 e)
  then have "plainElem e" by simp
  from cleanLoop_elem [OF this, of "[]"] show ?case by simp
next
  case (3 e e' es)
  then have e: "plainElem e" by simp
  then have ne: "e \<noteq> []" by (simp add: plainElem_def)
  let ?out = "(if rooted \<and> length out \<noteq> 1 \<or> \<not> rooted \<and> length out \<noteq> 0
               then out @ [Separator] else out) @ e"
  have "cleanLoop rooted (strings_Join (e # e' # es) [Separator]) out dotdot
          = cleanLoop rooted (e @ Separator # strings_Join (e' # es) [Separator]) out dotdot"
    by simp
  also have "\<dots> = cleanLoop rooted (Separator # strings_Join (e' # es) [Separator]) ?out dotdot"
    by (rule cleanLoop_elem [OF e]) simp
  also have "\<dots> = cleanLoop rooted (strings_Join (e' # es) [Separator]) ?out dotdot"
    by (subst cleanLoop.simps) simp
  also have "\<dots> = (if rooted \<and> length ?out \<noteq> 1 \<or> \<not> rooted \<and> length ?out \<noteq> 0
            then ?out @ [Separator] else ?out) @ strings_Join (e' # es) [Separator]"
    using "3.prems" by (intro "3.hyps") simp_all
  also have "\<dots> = ?out @ [Separator] @ strings_Join (e' # es) [Separator]"
    using ne by (cases e) auto
  finally show ?case by simp
qed

lemma Clean_plain:
  assumes "elems \<noteq> []" and "\<forall>e \<in> set elems. plainElem e"
  shows "Clean ((if rooted then [Separator] else []) @ strings_Join elems [Separator])
           = (if rooted then [Separator] else []) @ strings_Join elems [Separator]"
proof -
  obtain e es where elems: "elems = e # es" using assms(1) by (cases elems) auto
  with assms(2) have "plainElem e" by simp
  then obtain c cs where e: "e = c # cs" and c: "c \<noteq> Separator"
    by (cases e) (auto simp: plainElem_def)
  have hd: "strings_Join elems [Separator] = c # tl (strings_Join elems [Separator])"
    unfolding elems e by (cases es) simp_all
  show ?thesis
  proof (cases rooted)
    case True
    then show ?thesis
      by (simp add: Clean_def Let_def cleanLoop_elems [OF assms])
  next
    case False
    have "hd (strings_Join elems [Separator]) \<noteq> Separator"
      by (subst hd) (simp add: c)
    moreover have "strings_Join elems [Separator] \<noteq> []"
      by (subst hd) simp
    ultimately show ?thesis using False
      by (simp add: Clean_def Let_def cleanLoop_elems [OF assms])
  qed
qed

lemma filepath_Join_plain:
  assumes p: "ps \<noteq> []" "\<forall>e \<in> set ps. plainElem e"
    and i: "is \<noteq> []" "\<forall>e \<in> set is. plainElem e"
    and prefix: "prefix = (if rooted then [Separator] else []) @ strings_Join ps [Separator]"
    and ident: "ident = strings_Join is [Separator]"
  shows "filepath_Join [prefix, ident] = prefix @ [Separator] @ ident"
proof -
  have ne: "prefix \<noteq> []"
    using p unfolding prefix by (cases ps; cases "hd ps"; cases "tl ps") (auto simp: plainElem_def)
  have "prefix @ [Separator] @ ident
          = (if rooted then [Separator] else []) @ strings_Join (ps @ is) [Separator]"
    unfolding prefix ident using p(1) i(1) by (simp add: strings_Join_append)
  moreover have "Clean ((if rooted then [Separator] else []) @ strings_Join (ps @ is) [Separator])
          = (if rooted then [Separator] else []) @ strings_Join (ps @ is) [Separator]"
    using p i by (intro Clean_plain) auto
  ultimately show ?thesis using ne by simp
qed

lemma Store_unfold:
  "Store dflt api s obj w =
     (let sse = (if EncryptionKey s \<noteq> None
                 then Some (if EncryptionAlgorithm s = [] then dflt else EncryptionAlgorithm s)
                 else None);
          up = \<lparr>up_Bucket = Bucket s, up_Key = filepath_Join [Prefix s, ID obj],
                 up_Body = Data obj, up_SSECustomerAlgorithm = sse,
                 up_SSECustomerKey = EncryptionKey s\<rparr>;
          hd = \<lparr>head_Bucket = Bucket s, head_Key = filepath_Join [Prefix s, ID obj],
                 head_SSECustomerAlgorithm = sse, head_SSECustomerKey = EncryptionKey s\<rparr>
      in case api_Upload api up w of
           (Inl err, w1) \<Rightarrow> (Returns (0, Some err), [CallUpload up], w1)
         | (Inr res, w1) \<Rightarrow>
             (case api_HeadObject api hd w1 of
                (Inl err, w2) \<Rightarrow> (Returns (0, Some err), [CallUpload up, CallHeadObject hd], w2)
              | (Inr head, w2) \<Rightarrow>
                  (case ContentLength head of
                     None \<Rightarrow> (Panics, [CallUpload up, CallHeadObject hd], w2)
                   | Some n \<Rightarrow> (Returns (n, None), [CallUpload up, CallHeadObject hd], w2))))"
  by (cases "EncryptionKey s"; cases "EncryptionAlgorithm s = []")
     (simp_all add: Store_def Let_def del: filepath_Join.simps
        cong: prod.case_cong sum.case_cong option.case_cong)

text \<open>
  Claim C3. \<^verbatim>\<open>Store\<close> first issues the upload \<open>up\<close>; it issues the size lookup \<open>hd\<close> next
  exactly when the upload succeeds. The upload carries the configured key and, with it,
  the configured algorithm or, when that is empty, the default algorithm; without a key
  it carries neither. The size lookup carries the same key and the same algorithm as
  the upload.
\<close>

theorem Store_encryption_parameters:
  "\<exists>up hd.
      up_SSECustomerKey up = EncryptionKey s
    \<and> up_SSECustomerAlgorithm up =
        (if EncryptionKey s = None then None
         else if EncryptionAlgorithm s = [] then Some dflt
         else Some (EncryptionAlgorithm s))
    \<and> head_SSECustomerKey hd = up_SSECustomerKey up
    \<and> head_SSECustomerAlgorithm hd = up_SSECustomerAlgorithm up
    \<and> (case api_Upload api up w of
          (Inl err, w1) \<Rightarrow> fst (snd (Store dflt api s obj w)) = [CallUpload up]
        | (Inr res, w1) \<Rightarrow> fst (snd (Store dflt api s obj w)) = [CallUpload up, CallHeadObject hd])"
proof -
  let ?sse = "if EncryptionKey s \<noteq> None
              then Some (if EncryptionAlgorithm s = [] then dflt else EncryptionAlgorithm s)
              else None"
  let ?up = "\<lparr>up_Bucket = Bucket s, up_Key = filepath_Join [Prefix s, ID obj],
              up_Body = Data obj, up_SSECustomerAlgorithm = ?sse,
              up_SSECustomerKey = EncryptionKey s\<rparr>"
  let ?hd = "\<lparr>head_Bucket = Bucket s, head_Key = filepath_Join [Prefix s, ID obj],
              head_SSECustomerAlgorithm = ?sse, head_SSECustomerKey = EncryptionKey s\<rparr>"
  obtain r w1 where up: "api_Upload api ?up w = (r, w1)"
    by (cases "api_Upload api ?up w") auto
  have "case api_Upload api ?up w of
          (Inl err, w1) \<Rightarrow> fst (snd (Store dflt api s obj w)) = [CallUpload ?up]
        | (Inr res, w1) \<Rightarrow> fst (snd (Store dflt api s obj w)) = [CallUpload ?up, CallHeadObject ?hd]"
  proof (cases r)
    case (Inl err)
    with up show ?thesis by (simp add: Store_unfold Let_def)
  next
    case (Inr res)
    obtain r2 w2 where hd: "api_HeadObject api ?hd w1 = (r2, w2)"
      by (cases "api_HeadObject api ?hd w1") auto
    show ?thesis
    proof (cases r2)
      case (Inl err)
      with up Inr hd show ?thesis by (simp add: Store_unfold Let_def)
    next
      case head: (Inr head)
      with up Inr hd show ?thesis
        by (cases "ContentLength head") (simp_all add: Store_unfold Let_def)
    qed
  qed
  then show ?thesis
    by (intro exI [of _ ?up] exI [of _ ?hd]) simp
qed

theorem Store_encryption_parameters_witness:
  "\<exists>up hd.
      up_SSECustomerAlgorithm up = Some ''AES256''
    \<and> up_SSECustomerKey up = Some ''0123456789abcdef0123456789abcdef''
    \<and> head_SSECustomerAlgorithm hd = Some ''AES256''
    \<and> head_SSECustomerKey hd = Some ''0123456789abcdef0123456789abcdef''
    \<and> fst (snd (Store ''AES256'' (store_api []) example_destination example_object example_store))
        = [CallUpload up, CallHeadObject hd]"
proof -
  from Store_encryption_parameters
         [where s = example_destination and dflt = "''AES256''" and api = "store_api []"
            and w = example_store and obj = example_object]
  obtain up hd where f:
    "up_SSECustomerKey up = EncryptionKey example_destination
     \<and> up_SSECustomerAlgorithm up =
        (if EncryptionKey example_destination = None then None
         else if EncryptionAlgorithm example_destination = [] then Some ''AES256''
         else Some (EncryptionAlgorithm example_destination))
     \<and> head_SSECustomerKey hd = up_SSECustomerKey up
     \<and> head_SSECustomerAlgorithm hd = up_SSECustomerAlgorithm up
     \<and> (case api_Upload (store_api []) up example_store of
          (Inl err, w1) \<Rightarrow>
            fst (snd (Store ''AES256'' (store_api []) example_destination example_object
                        example_store))
              = [CallUpload up]
        | (Inr res, w1) \<Rightarrow>
            fst (snd (Store ''AES256'' (store_api []) example_destination example_object
                        example_store))
              = [CallUpload up, CallHeadObject hd])"
    by (elim exE) (rule that)
  have "api_Upload (store_api []) up example_store
          = (Inr \<lparr>Location = up_Key up, UploadID = []\<rparr>,
             example_store\<lparr>uploaded := (up_Key up, up_Body up) # uploaded example_store\<rparr>)"
    by (simp add: store_api_def)
  with f show ?thesis
    by (intro exI [of _ up] exI [of _ hd]) (simp add: example_destination_def)
qed

text \<open>
  Claim C8, amended. For every call of \<^verbatim>\<open>Store\<close>, the upload and the size lookup use the
  key \<^verbatim>\<open>filepath.Join(prefix, obj.ID)\<close>, which is \<open>prefix/obj.ID\<close> whenever the prefix and
  the identifier are slash-separated sequences of plain elements (the prefix may start
  with a slash). When the upload fails \<^verbatim>\<open>Store\<close> returns size 0 with that error after the
  upload alone; when the size lookup fails it returns size 0 with that error after the
  upload and the lookup, and no further call; when both succeed it returns the
  \<^verbatim>\<open>ContentLength\<close> of the lookup, and panics when the lookup carries none.
\<close>

theorem Store_key_size_errors:
  "\<exists>up hd.
      up_Bucket up = Bucket s \<and> up_Key up = filepath_Join [Prefix s, ID obj]
    \<and> up_Body up = Data obj
    \<and> head_Bucket hd = Bucket s \<and> head_Key hd = filepath_Join [Prefix s, ID obj]
    \<and> (\<forall>rooted ps is.
          Prefix s = (if rooted then [Separator] else []) @ strings_Join ps [Separator]
            \<and> ps \<noteq> [] \<and> (\<forall>e \<in> set ps. plainElem e)
            \<and> ID obj = strings_Join is [Separator]
            \<and> is \<noteq> [] \<and> (\<forall>e \<in> set is. plainElem e) \<longrightarrow>
          filepath_Join [Prefix s, ID obj] = Prefix s @ ''/'' @ ID obj)
    \<and> (\<forall>err w1. api_Upload api up w = (Inl err, w1) \<longrightarrow>
          Store dflt api s obj w = (Returns (0, Some err), [CallUpload up], w1))
    \<and> (\<forall>res w1 err w2.
          api_Upload api up w = (Inr res, w1) \<and> api_HeadObject api hd w1 = (Inl err, w2) \<longrightarrow>
          Store dflt api s obj w
            = (Returns (0, Some err), [CallUpload up, CallHeadObject hd], w2))
    \<and> (\<forall>res w1 head w2 n.
          api_Upload api up w = (Inr res, w1) \<and> api_HeadObject api hd w1 = (Inr head, w2)
            \<and> ContentLength head = Some n \<longrightarrow>
          Store dflt api s obj w
            = (Returns (n, None), [CallUpload up, CallHeadObject hd], w2))
    \<and> (\<forall>res w1 head w2.
          api_Upload api up w = (Inr res, w1) \<and> api_HeadObject api hd w1 = (Inr head, w2)
            \<and> ContentLength head = None \<longrightarrow>
          Store dflt api s obj w = (Panics, [CallUpload up, CallHeadObject hd], w2))"
proof -
  have key: "\<forall>rooted ps is.
          Prefix s = (if rooted then [Separator] else []) @ strings_Join ps [Separator]
            \<and> ps \<noteq> [] \<and> (\<forall>e \<in> set ps. plainElem e)
            \<and> ID obj = strings_Join is [Separator]
            \<and> is \<noteq> [] \<and> (\<forall>e \<in> set is. plainElem e) \<longrightarrow>
          filepath_Join [Prefix s, ID obj] = Prefix s @ ''/'' @ ID obj"
  proof (intro allI impI)
    fix rooted ps "is"
    assume a: "Prefix s = (if rooted then [Separator] else []) @ strings_Join ps [Separator]
            \<and> ps \<noteq> [] \<and> (\<forall>e \<in> set ps. plainElem e)
            \<and> ID obj = strings_Join is [Separator]
            \<and> is \<noteq> [] \<and> (\<forall>e \<in> set is. plainElem e)"
    then have "filepath_Join [Prefix s, ID obj] = Prefix s @ [Separator] @ ID obj"
      by (intro filepath_Join_plain [of ps "is" _ rooted]) simp_all
    then show "filepath_Join [Prefix s, ID obj] = Prefix s @ ''/'' @ ID obj"
      by (simp add: Separator_def del: filepath_Join.simps)
  qed
  let ?sse = "if EncryptionKey s \<noteq> None
              then Some (if EncryptionAlgorithm s = [] then dflt else EncryptionAlgorithm s)
              else None"
  let ?up = "\<lparr>up_Bucket = Bucket s, up_Key = filepath_Join [Prefix s, ID obj],
              up_Body = Data obj, up_SSECustomerAlgorithm = ?sse,
              up_SSECustomerKey = EncryptionKey s\<rparr>"
  let ?hd = "\<lparr>head_Bucket = Bucket s, head_Key = filepath_Join [Prefix s, ID obj],
              head_SSECustomerAlgorithm = ?sse, head_SSECustomerKey = EncryptionKey s\<rparr>"
  have a: "\<forall>err w1. api_Upload api ?up w = (Inl err, w1) \<longrightarrow>
          Store dflt api s obj w = (Returns (0, Some err), [CallUpload ?up], w1)"
    unfolding Store_unfold Let_def by simp
  have b: "\<forall>res w1 err w2.
          api_Upload api ?up w = (Inr res, w1) \<and> api_HeadObject api ?hd w1 = (Inl err, w2) \<longrightarrow>
          Store dflt api s obj w
            = (Returns (0, Some err), [CallUpload ?up, CallHeadObject ?hd], w2)"
    unfolding Store_unfold Let_def by simp
  have c: "\<forall>res w1 head w2 n.
          api_Upload api ?up w = (Inr res, w1) \<and> api_HeadObject api ?hd w1 = (Inr head, w2)
            \<and> ContentLength head = Some n \<longrightarrow>
          Store dflt api s obj w
            = (Returns (n, None), [CallUpload ?up, CallHeadObject ?hd], w2)"
    unfolding Store_unfold Let_def by simp
  have d: "\<forall>res w1 head w2.
          api_Upload api ?up w = (Inr res, w1) \<and> api_HeadObject api ?hd w1 = (Inr head, w2)
            \<and> ContentLength head = None \<longrightarrow>
          Store dflt api s obj w = (Panics, [CallUpload ?up, CallHeadObject ?hd], w2)"
    unfolding Store_unfold Let_def by simp
  from a b c d key show ?thesis
    by (intro exI [of _ ?up] exI [of _ ?hd]) (simp del: filepath_Join.simps)
qed

text \<open>
  The four outcomes on the example: success under the key \<open>ns/plan/dump.tgz\<close>; a failed
  upload, here with an empty prefix and so under the key \<open>dump.tgz\<close>; a failed size lookup;
  and a size lookup without \<^verbatim>\<open>ContentLength\<close>.
\<close>

theorem Store_key_size_errors_witness:
  "(\<exists>up hd.
      up_Key up = ''ns/plan/dump.tgz'' \<and> head_Key hd = ''ns/plan/dump.tgz''
    \<and> Store ''AES256'' (store_api []) example_destination example_object example_store
        = (Returns (3, None), [CallUpload up, CallHeadObject hd],
           example_store\<lparr>uploaded := [(''ns/plan/dump.tgz'', [80, 75, 3])]\<rparr>))
   \<and> (\<exists>up.
      up_Key up = ''dump.tgz''
    \<and> Store ''AES256''
        (store_api []\<lparr>api_Upload := (\<lambda>inp w. (Inl (OtherError ''timeout''), w))\<rparr>)
        example_unprefixed example_object example_store
        = (Returns (0, Some (OtherError ''timeout'')), [CallUpload up], example_store))
   \<and> (\<exists>up hd.
      Store ''AES256''
        (store_api []\<lparr>api_HeadObject := (\<lambda>inp w. (Inl (AwsError ''Forbidden'' ''Forbidden''), w))\<rparr>)
        example_destination example_object example_store
        = (Returns (0, Some (AwsError ''Forbidden'' ''Forbidden'')),
           [CallUpload up, CallHeadObject hd],
           example_store\<lparr>uploaded := [(''ns/plan/dump.tgz'', [80, 75, 3])]\<rparr>))
   \<and> (\<exists>up hd.
      Store ''AES256''
        (store_api []\<lparr>api_HeadObject := (\<lambda>inp w. (Inr \<lparr>ContentLength = None\<rparr>, w))\<rparr>)
        example_destination example_object example_store
        = (Panics, [CallUpload up, CallHeadObject hd],
           example_store\<lparr>uploaded := [(''ns/plan/dump.tgz'', [80, 75, 3])]\<rparr>))"
proof -
  have prefix: "Prefix example_destination
                  = (if False then [Separator] else []) @ strings_Join [''ns'', ''plan''] [Separator]"
    by (simp add: example_destination_def Separator_def)
  have ps: "[''ns'', ''plan''] \<noteq> []" "\<forall>e \<in> set [''ns'', ''plan'']. plainElem e"
    by (simp_all add: plainElem_def Separator_def)
  have ident: "ID example_object = strings_Join [''dump.tgz''] [Separator]"
    by (simp add: example_object_def)
  have "is": "[''dump.tgz''] \<noteq> []" "\<forall>e \<in> set [''dump.tgz'']. plainElem e"
    by (simp_all add: plainElem_def Separator_def)
  have joined: "Prefix example_destination @ ''/'' @ ID example_object = ''ns/plan/dump.tgz''"
    by (simp add: example_destination_def example_object_def)
  have bare: "filepath_Join [Prefix example_unprefixed, ID example_object] = ''dump.tgz''"
    by (simp add: example_unprefixed_def example_object_def Clean_def Separator_def)
  let ?stored = "example_store\<lparr>uploaded := [(''ns/plan/dump.tgz'', [80, 75, 3])]\<rparr>"
  have a: "\<exists>up hd.
      up_Key up = ''ns/plan/dump.tgz'' \<and> head_Key hd = ''ns/plan/dump.tgz''
    \<and> Store ''AES256'' (store_api []) example_destination example_object example_store
        = (Returns (3, None), [CallUpload up, CallHeadObject hd], ?stored)"
  proof -
    from Store_key_size_errors
           [where api = "store_api []" and s = example_destination and obj = example_object
              and dflt = "''AES256''" and w = example_store]
    obtain up hd where
      up: "up_Key up = filepath_Join [Prefix example_destination, ID example_object]"
          "up_Body up = Data example_object"
      and hd: "head_Key hd = filepath_Join [Prefix example_destination, ID example_object]"
      and plain: "\<And>rooted ps is.
          Prefix example_destination
            = (if rooted then [Separator] else []) @ strings_Join ps [Separator] \<Longrightarrow>
          ps \<noteq> [] \<Longrightarrow> \<forall>e \<in> set ps. plainElem e \<Longrightarrow>
          ID example_object = strings_Join is [Separator] \<Longrightarrow>
          is \<noteq> [] \<Longrightarrow> \<forall>e \<in> set is. plainElem e \<Longrightarrow>
          filepath_Join [Prefix example_destination, ID example_object]
            = Prefix example_destination @ ''/'' @ ID example_object"
      and ok: "\<And>res w1 head w2 n.
          api_Upload (store_api []) up example_store = (Inr res, w1) \<Longrightarrow>
          api_HeadObject (store_api []) hd w1 = (Inr head, w2) \<Longrightarrow>
          ContentLength head = Some n \<Longrightarrow>
          Store ''AES256'' (store_api []) example_destination example_object example_store
            = (Returns (n, None), [CallUpload up, CallHeadObject hd], w2)"
      by (elim exE conjE) (rule that; blast)
    from plain [OF prefix ps ident "is"] up hd
    have k: "up_Key up = ''ns/plan/dump.tgz''" "head_Key hd = ''ns/plan/dump.tgz''"
      unfolding joined by simp_all
    have u: "api_Upload (store_api []) up example_store
               = (Inr \<lparr>Location = ''ns/plan/dump.tgz'', UploadID = []\<rparr>, ?stored)"
      by (simp add: store_api_def k up(2) example_object_def example_store_def)
    have h: "api_HeadObject (store_api []) hd ?stored = (Inr \<lparr>ContentLength = Some 3\<rparr>, ?stored)"
      by (simp add: store_api_def k)
    from ok [OF u h] k show ?thesis by auto
  qed
  have b: "\<exists>up.
      up_Key up = ''dump.tgz''
    \<and> Store ''AES256''
        (store_api []\<lparr>api_Upload := (\<lambda>inp w. (Inl (OtherError ''timeout''), w))\<rparr>)
        example_unprefixed example_object example_store
        = (Returns (0, Some (OtherError ''timeout'')), [CallUpload up], example_store)"
  proof -
    let ?api = "store_api []\<lparr>api_Upload := (\<lambda>inp w. (Inl (OtherError ''timeout''), w))\<rparr>"
    from Store_key_size_errors
           [where api = ?api and s = example_unprefixed and obj = example_object
              and dflt = "''AES256''" and w = example_store]
    obtain up where
      up: "up_Key up = filepath_Join [Prefix example_unprefixed, ID example_object]"
      and ko: "\<And>err w1. api_Upload ?api up example_store = (Inl err, w1) \<Longrightarrow>
          Store ''AES256'' ?api example_unprefixed example_object example_store
            = (Returns (0, Some err), [CallUpload up], w1)"
      by (elim exE conjE) (rule that; blast)
    have "api_Upload ?api up example_store = (Inl (OtherError ''timeout''), example_store)"
      by simp
    from ko [OF this] up bare show ?thesis by auto
  qed
  have c: "\<exists>up hd.
      Store ''AES256''
        (store_api []\<lparr>api_HeadObject := (\<lambda>inp w. (Inl (AwsError ''Forbidden'' ''Forbidden''), w))\<rparr>)
        example_destination example_object example_store
        = (Returns (0, Some (AwsError ''Forbidden'' ''Forbidden'')),
           [CallUpload up, CallHeadObject hd], ?stored)"
  proof -
    let ?api = "store_api []\<lparr>api_HeadObject := (\<lambda>inp w. (Inl (AwsError ''Forbidden'' ''Forbidden''), w))\<rparr>"
    from Store_key_size_errors
           [where api = ?api and s = example_destination and obj = example_object
              and dflt = "''AES256''" and w = example_store]
    obtain up hd where
      up: "up_Key up = filepath_Join [Prefix example_destination, ID example_object]"
          "up_Body up = Data example_object"
      and plain: "\<And>rooted ps is.
          Prefix example_destination
            = (if rooted then [Separator] else []) @ strings_Join ps [Separator] \<Longrightarrow>
          ps \<noteq> [] \<Longrightarrow> \<forall>e \<in> set ps. plainElem e \<Longrightarrow>
          ID example_object = strings_Join is [Separator] \<Longrightarrow>
          is \<noteq> [] \<Longrightarrow> \<forall>e \<in> set is. plainElem e \<Longrightarrow>
          filepath_Join [Prefix example_destination, ID example_object]
            = Prefix example_destination @ ''/'' @ ID example_object"
      and ko: "\<And>res w1 err w2.
          api_Upload ?api up example_store = (Inr res, w1) \<Longrightarrow>
          api_HeadObject ?api hd w1 = (Inl err, w2) \<Longrightarrow>
          Store ''AES256'' ?api example_destination example_object example_store
            = (Returns (0, Some err), [CallUpload up, CallHeadObject hd], w2)"
      by (elim exE conjE) (rule that; blast)
    from plain [OF prefix ps ident "is"] up
    have k: "up_Key up = ''ns/plan/dump.tgz''"
      unfolding joined by simp
    have u: "api_Upload ?api up example_store
               = (Inr \<lparr>Location = ''ns/plan/dump.tgz'', UploadID = []\<rparr>, ?stored)"
      by (simp add: store_api_def k up(2) example_object_def example_store_def)
    have h: "api_HeadObject ?api hd ?stored = (Inl (AwsError ''Forbidden'' ''Forbidden''), ?stored)"
      by simp
    from ko [OF u h] show ?thesis by blast
  qed
  have d: "\<exists>up hd.
      Store ''AES256''
        (store_api []\<lparr>api_HeadObject := (\<lambda>inp w. (Inr \<lparr>ContentLength = None\<rparr>, w))\<rparr>)
        example_destination example_object example_store
        = (Panics, [CallUpload up, CallHeadObject hd], ?stored)"
  proof -
    let ?api = "store_api []\<lparr>api_HeadObject := (\<lambda>inp w. (Inr \<lparr>ContentLength = None\<rparr>, w))\<rparr>"
    from Store_key_size_errors
           [where api = ?api and s = example_destination and obj = example_object
              and dflt = "''AES256''" and w = example_store]
    obtain up hd where
      up: "up_Key up = filepath_Join [Prefix example_destination, ID example_object]"
          "up_Body up = Data example_object"
      and plain: "\<And>rooted ps is.
          Prefix example_destination
            = (if rooted then [Separator] else []) @ strings_Join ps [Separator] \<Longrightarrow>
          ps \<noteq> [] \<Longrightarrow> \<forall>e \<in> set ps. plainElem e \<Longrightarrow>
          ID example_object = strings_Join is [Separator] \<Longrightarrow>
          is \<noteq> [] \<Longrightarrow> \<forall>e \<in> set is. plainElem e \<Longrightarrow>
          filepath_Join [Prefix example_destination, ID example_object]
            = Prefix example_destination @ ''/'' @ ID example_object"
      and nil: "\<And>res w1 head w2.
          api_Upload ?api up example_store = (Inr res, w1) \<Longrightarrow>
          api_HeadObject ?api hd w1 = (Inr head, w2) \<Longrightarrow>
          ContentLength head = None \<Longrightarrow>
          Store ''AES256'' ?api example_destination example_object example_store
            = (Panics, [CallUpload up, CallHeadObject hd], w2)"
      by (elim exE conjE) (rule that; blast)
    from plain [OF prefix ps ident "is"] up
    have k: "up_Key up = ''ns/plan/dump.tgz''"
      unfolding joined by simp
    have u: "api_Upload ?api up example_store
               = (Inr \<lparr>Location = ''ns/plan/dump.tgz'', UploadID = []\<rparr>, ?stored)"
      by (simp add: store_api_def k up(2) example_object_def example_store_def)
    have h: "api_HeadObject ?api hd ?stored = (Inr \<lparr>ContentLength = None\<rparr>, ?stored)"
      by simp
    from nil [OF u h] show ?thesis by auto
  qed
  from a b c d show ?thesis by blast
qed

text \<open>
  With an empty prefix the key is the identifier alone, not \<open>prefix/obj.ID\<close>, which
  would start with a slash.
\<close>

theorem Store_key_counterexample:
  "fst (snd (Store ''AES256'' (store_api []) example_unprefixed example_object example_store))
     = [CallUpload \<lparr>up_Bucket = ''test'', up_Key = ''dump.tgz'', up_Body = [80, 75, 3],
                    up_SSECustomerAlgorithm = None, up_SSECustomerKey = None\<rparr>,
        CallHeadObject \<lparr>head_Bucket = ''test'', head_Key = ''dump.tgz'',
                        head_SSECustomerAlgorithm = None, head_SSECustomerKey = None\<rparr>]
   \<and> Prefix example_unprefixed @ ''/'' @ ID example_object = ''/dump.tgz''"
  by (simp add: Store_unfold Let_def store_api_def example_unprefixed_def example_object_def
        example_store_def Clean_def Separator_def)

text \<open>
  Claim C9. Once the session exists, \<^verbatim>\<open>NewS3Destination\<close> issues one \<^verbatim>\<open>CreateBucket\<close>
  for the configured bucket. It returns the destination when the creation succeeds or
  fails with the code \<^verbatim>\<open>BucketAlreadyExists\<close> or \<^verbatim>\<open>BucketAlreadyOwnedByYou\<close>; it returns
  the creation error when that has any other code, or is not an \<^verbatim>\<open>awserr.Error\<close>.
\<close>

theorem NewS3Destination_bucket_creation:
  assumes "api_CreateBucket api \<lparr>create_Bucket = conf_Bucket conf\<rparr> w = (result, w1)"
  shows "\<exists>r. NewS3Destination None api conf w
               = (r, [CallCreateBucket \<lparr>create_Bucket = conf_Bucket conf\<rparr>], w1)
       \<and> (result = None
            \<or> (\<exists>message. result = Some (AwsError ErrCodeBucketAlreadyExists message))
            \<or> (\<exists>message. result = Some (AwsError ErrCodeBucketAlreadyOwnedByYou message))
          \<longrightarrow> r = Inr \<lparr>EncryptionKey = conf_EncryptionKey conf,
                      EncryptionAlgorithm = conf_EncryptionAlgorithm conf,
                      PartSize = conf_PartSize conf,
                      Bucket = conf_Bucket conf,
                      Prefix = conf_Prefix conf\<rparr>)
       \<and> (\<forall>code message.
            result = Some (AwsError code message) \<and> code \<noteq> ErrCodeBucketAlreadyExists
              \<and> code \<noteq> ErrCodeBucketAlreadyOwnedByYou
          \<longrightarrow> r = Inl (AwsError code message))
       \<and> (\<forall>message. result = Some (OtherError message) \<longrightarrow> r = Inl (OtherError message))"
  using assms
  by (cases result)
     (auto simp: NewS3Destination_def Let_def split: error.splits)

theorem NewS3Destination_bucket_creation_witness:
  "fst (NewS3Destination None (store_api []) example_conf example_store)
     = Inr \<lparr>EncryptionKey = None, EncryptionAlgorithm = [], PartSize = 5242880,
            Bucket = ''test'', Prefix = ''ns/plan''\<rparr>
   \<and> fst (NewS3Destination None (store_api []) example_conf
          (example_store\<lparr>createError := Some (AwsError ''BucketAlreadyOwnedByYou'' ''conflict'')\<rparr>))
     = Inr \<lparr>EncryptionKey = None, EncryptionAlgorithm = [], PartSize = 5242880,
            Bucket = ''test'', Prefix = ''ns/plan''\<rparr>
   \<and> fst (NewS3Destination None (store_api []) example_conf
          (example_store\<lparr>createError := Some (AwsError ''BucketAlreadyExists'' ''conflict'')\<rparr>))
     = Inr \<lparr>EncryptionKey = None, EncryptionAlgorithm = [], PartSize = 5242880,
            Bucket = ''test'', Prefix = ''ns/plan''\<rparr>
   \<and> fst (NewS3Destination None (store_api []) example_conf
          (example_store\<lparr>createError := Some (AwsError ''AccessDenied'' ''denied'')\<rparr>))
     = Inl (AwsError ''AccessDenied'' ''denied'')
   \<and> fst (NewS3Destination None (store_api []) example_conf
          (example_store\<lparr>createError := Some (OtherError ''connection refused'')\<rparr>))
     = Inl (OtherError ''connection refused'')"
proof -
  have r: "api_CreateBucket (store_api []) \<lparr>create_Bucket = conf_Bucket example_conf\<rparr> w
             = (createError w, w)" for w
    by (simp add: store_api_def)
  from NewS3Destination_bucket_creation [OF r [of example_store]]
       NewS3Destination_bucket_creation
         [OF r [of "example_store\<lparr>createError := Some (AwsError ''BucketAlreadyOwnedByYou'' ''conflict'')\<rparr>"]]
       NewS3Destination_bucket_creation
         [OF r [of "example_store\<lparr>createError := Some (AwsError ''BucketAlreadyExists'' ''conflict'')\<rparr>"]]
       NewS3Destination_bucket_creation
         [OF r [of "example_store\<lparr>createError := Some (AwsError ''AccessDenied'' ''denied'')\<rparr>"]]
       NewS3Destination_bucket_creation
         [OF r [of "example_store\<lparr>createError := Some (OtherError ''connection refused'')\<rparr>"]]
  show ?thesis
    by (auto simp: example_conf_def example_store_def ErrCodeBucketAlreadyExists_def
          ErrCodeBucketAlreadyOwnedByYou_def)
qed

end
